theory Spec2Isabelle
  imports Main "HOL-Library.Word"
begin

section \<open>Errors, responses and the world a request handler runs in\<close>

text \<open>
  The TypeScript source is one class, \<open>ServerShell\<close>, holding a list of \<open>Route\<close> objects and
  one middleware function. The compiled build \<open>dist/index.js\<close> is a later revision of the same
  class: it adds \<open>options\<close> and \<open>useDynamic\<close> and changes the handler that \<open>useStatic\<close> installs.
  Both are modelled; where they differ the build's definition carries the suffix \<open>_dist\<close>.

  Exceptions are values. \<open>RouteAlreadyBoundError\<close> carries the route it was constructed with,
  \<open>FilesystemError\<close> stands for whatever \<open>node:fs\<close> throws (with the path it was called on),
  \<open>ERR_HTTP_HEADERS_SENT\<close> is the error of \<open>node:http\<close> with that code, and \<open>Thrown\<close> stands for
  anything a user callback throws.
\<close>

datatype error =
    RouteAlreadyBoundError string
  | FilesystemError string
  | ERR_HTTP_HEADERS_SENT
  | Thrown string

type_synonym bytes = "8 word list"

text \<open>
  The response object of a request: the calls of \<open>writeHead\<close> and \<open>end\<close> that went through,
  in the order they were made. A header value is a string or a number, as in the object
  literals of the source.
\<close>

datatype header_value = Text string | Number nat

datatype res_event =
    WriteHead nat "(string \<times> header_value) list"
  | End string

text \<open>
  What a callback can touch while one request is handled: the files \<open>readFileSync\<close> can read
  at that moment (by the path string it is called with), the lines written by \<open>console.log\<close>,
  and the response of the request.
\<close>

record world =
  files :: "string \<Rightarrow> bytes option"
  console :: "string list"
  res :: "res_event list"

type_synonym 'a io = "world \<Rightarrow> (error + 'a) \<times> world"

definition return_io :: "'a \<Rightarrow> 'a io" where
  "return_io x w = (Inr x, w)"

definition throw_io :: "error \<Rightarrow> 'a io" where
  "throw_io e w = (Inl e, w)"

definition bind_io :: "'a io \<Rightarrow> ('a \<Rightarrow> 'b io) \<Rightarrow> 'b io" where
  "bind_io m f w = (case m w of (Inl e, w') \<Rightarrow> (Inl e, w') | (Inr x, w') \<Rightarrow> f x w')"

text \<open>
  The head of a response is written by the first \<open>writeHead\<close>, or by the first \<open>end\<close> when no
  \<open>writeHead\<close> came before it (the implicit head): \<open>res.headersSent\<close> holds as soon as one of
  the two has been called. \<open>res.writeHead\<close> throws \<open>ERR_HTTP_HEADERS_SENT\<close> when the head has
  been written, and writes nothing then.
\<close>

definition headersSent :: "world \<Rightarrow> bool" where
  "headersSent w = (res w \<noteq> [])"

definition writeHead :: "nat \<Rightarrow> (string \<times> header_value) list \<Rightarrow> unit io" where
  "writeHead status headers w =
     (if headersSent w then (Inl ERR_HTTP_HEADERS_SENT, w)
      else (Inr (), w\<lparr>res := res w @ [WriteHead status headers]\<rparr>))"

definition res_end :: "string \<Rightarrow> unit io" where
  "res_end body w = (Inr (), w\<lparr>res := res w @ [End body]\<rparr>)"

definition console_log :: "string \<Rightarrow> unit io" where
  "console_log line w = (Inr (), w\<lparr>console := console w @ [line]\<rparr>)"

definition readFileSync :: "string \<Rightarrow> bytes io" where
  "readFileSync p w = (case files w p of None \<Rightarrow> (Inl (FilesystemError p), w) | Some b \<Rightarrow> (Inr b, w))"

section \<open>Route and ServerShell\<close>

text \<open>
  Of a request the source reads \<open>req.url\<close> and \<open>req.method\<close>; the second is the field
  \<open>req_method\<close> here, \<open>method\<close> being the field of \<open>Route\<close>. A callback
  \<open>(req, res) => void\<close> is a function of the request that acts on the world and may throw.
  It acts on the world only: a callback that registers routes or replaces the middleware
  while a request is handled is not modelled.
\<close>

record request =
  url :: string
  req_method :: string

type_synonym listener = "request \<Rightarrow> unit io"

record Route =
  path :: string
  "method" :: string
  callback :: listener

definition equals :: "Route \<Rightarrow> string \<Rightarrow> string \<Rightarrow> bool" where
  "equals this p m = (if path this = p \<and> method this = m then True else False)"

text \<open>
  The \<open>config\<close> field is only handed to \<open>server.listen\<close> and is left out. The constructor
  starts with no routes and the middleware \<open>() => {}\<close>.
\<close>

record ServerShell =
  routes :: "Route list"
  middleware :: listener

type_synonym 'a shell_op = "ServerShell \<Rightarrow> (error + 'a) \<times> ServerShell"

definition new_ServerShell :: ServerShell where
  "new_ServerShell = \<lparr>routes = [], middleware = (\<lambda>req. return_io ())\<rparr>"

definition use :: "listener \<Rightarrow> ServerShell \<Rightarrow> ServerShell" where
  "use mw this = this\<lparr>middleware := mw\<rparr>"

subsection \<open>Registration\<close>

text \<open>
  \<open>this.routes.forEach(f)\<close> with an \<open>f\<close> that may throw: the first throw leaves the loop and
  the method.
\<close>

fun forEach :: "('a \<Rightarrow> error option) \<Rightarrow> 'a list \<Rightarrow> error option" where
  "forEach f [] = None"
| "forEach f (x # xs) = (case f x of Some e \<Rightarrow> Some e | None \<Rightarrow> forEach f xs)"

definition push :: "Route \<Rightarrow> ServerShell \<Rightarrow> ServerShell" where
  "push r this = this\<lparr>routes := routes this @ [r]\<rparr>"

definition get :: "string \<Rightarrow> listener \<Rightarrow> unit shell_op" where
  "get p listener this =
     (case forEach (\<lambda>route.
             if path route = p \<and> (method route = ''GET'' \<or> method route = ''ANY'')
             then Some (RouteAlreadyBoundError p) else None) (routes this) of
        Some e \<Rightarrow> (Inl e, this)
      | None \<Rightarrow> (Inr (), push \<lparr>path = p, method = ''GET'', callback = listener\<rparr> this))"

definition post :: "string \<Rightarrow> listener \<Rightarrow> unit shell_op" where
  "post p listener this =
     (case forEach (\<lambda>route.
             if path route = p \<and> (method route = ''POST'' \<or> method route = ''ANY'')
             then Some (RouteAlreadyBoundError p) else None) (routes this) of
        Some e \<Rightarrow> (Inl e, this)
      | None \<Rightarrow> (Inr (), push \<lparr>path = p, method = ''POST'', callback = listener\<rparr> this))"

definition options_dist :: "string \<Rightarrow> listener \<Rightarrow> unit shell_op" where
  "options_dist p listener this =
     (case forEach (\<lambda>route.
             if path route = p \<and> (method route = ''OPTIONS'' \<or> method route = ''ANY'')
             then Some (RouteAlreadyBoundError p) else None) (routes this) of
        Some e \<Rightarrow> (Inl e, this)
      | None \<Rightarrow> (Inr (), push \<lparr>path = p, method = ''OPTIONS'', callback = listener\<rparr> this))"

definition put :: "string \<Rightarrow> listener \<Rightarrow> unit shell_op" where
  "put p listener this =
     (case forEach (\<lambda>route.
             if path route = p \<and> (method route = ''PUT'' \<or> method route = ''ANY'')
             then Some (RouteAlreadyBoundError p) else None) (routes this) of
        Some e \<Rightarrow> (Inl e, this)
      | None \<Rightarrow> (Inr (), push \<lparr>path = p, method = ''PUT'', callback = listener\<rparr> this))"

definition delete :: "string \<Rightarrow> listener \<Rightarrow> unit shell_op" where
  "delete p listener this =
     (case forEach (\<lambda>route.
             if path route = p \<and> (method route = ''DELETE'' \<or> method route = ''ANY'')
             then Some (RouteAlreadyBoundError p) else None) (routes this) of
        Some e \<Rightarrow> (Inl e, this)
      | None \<Rightarrow> (Inr (), push \<lparr>path = p, method = ''DELETE'', callback = listener\<rparr> this))"

definition any :: "string \<Rightarrow> listener \<Rightarrow> unit shell_op" where
  "any p listener this =
     (case forEach (\<lambda>route.
             if path route = p then Some (RouteAlreadyBoundError p) else None) (routes this) of
        Some e \<Rightarrow> (Inl e, this)
      | None \<Rightarrow> (Inr (), push \<lparr>path = p, method = ''ANY'', callback = listener\<rparr> this))"

text \<open>The registration operations by the method they bind.\<close>

datatype verb = GET | POST | PUT | DELETE | OPTIONS | ANY

fun verb_name :: "verb \<Rightarrow> string" where
  "verb_name GET = ''GET''"
| "verb_name POST = ''POST''"
| "verb_name PUT = ''PUT''"
| "verb_name DELETE = ''DELETE''"
| "verb_name OPTIONS = ''OPTIONS''"
| "verb_name ANY = ''ANY''"

fun register :: "verb \<Rightarrow> string \<Rightarrow> listener \<Rightarrow> unit shell_op" where
  "register GET = get"
| "register POST = post"
| "register PUT = put"
| "register DELETE = delete"
| "register OPTIONS = options_dist"
| "register ANY = any"

text \<open>
  The conflict rule in the words of the specification: an existing binding conflicts with a
  registration of \<open>(p, m)\<close> when it has the same path and the same method, or either side is
  \<open>ANY\<close>.
\<close>

definition conflicts :: "Route \<Rightarrow> string \<Rightarrow> string \<Rightarrow> bool" where
  "conflicts r p m \<longleftrightarrow> path r = p \<and> (method r = m \<or> method r = ''ANY'' \<or> m = ''ANY'')"

subsection \<open>The request listener installed by \<open>listen\<close>\<close>

text \<open>
  \<open>listen\<close> creates the server with one request listener, starts it and calls its callback
  argument. What is modelled is that listener: what the shell does with one request. It
  reads \<open>this.routes\<close> and \<open>this.middleware\<close> when the request arrives.
\<close>

text \<open>
  The \<open>for\<close> loop over \<open>this.routes\<close>: every route that matches is called, in order; a callback
  that throws ends the loop.
\<close>

fun for_routes :: "Route list \<Rightarrow> request \<Rightarrow> bool \<Rightarrow> bool io" where
  "for_routes [] req found w = (Inr found, w)"
| "for_routes (route # rest) req found w =
     (if equals route (url req) (req_method req) then
        (case callback route req w of
           (Inl e, w') \<Rightarrow> (Inl e, w')
         | (Inr _, w') \<Rightarrow> for_routes rest req True w')
      else if path route = url req \<and> method route = ''ANY'' then
        (case callback route req w of
           (Inl e, w') \<Rightarrow> (Inl e, w')
         | (Inr _, w') \<Rightarrow> for_routes rest req True w')
      else for_routes rest req found w)"

definition listen :: "ServerShell \<Rightarrow> request \<Rightarrow> unit io" where
  "listen this req w =
     (case middleware this req w of
        (Inl e, w1) \<Rightarrow> (Inl e, w1)
      | (Inr _, w1) \<Rightarrow>
          (case for_routes (routes this) req False w1 of
             (Inl e, w2) \<Rightarrow> (Inl e, w2)
           | (Inr found, w2) \<Rightarrow>
               if \<not> found then
                 (case writeHead 404 [(''Content-Type'', Text ''text/html'')] w2 of
                    (Inl e, w3) \<Rightarrow> (Inl e, w3)
                  | (Inr _, w3) \<Rightarrow> res_end (''Cannot get '' @ url req) w3)
               else (Inr (), w2)))"

section \<open>Paths and file names\<close>

text \<open>
  Strings are sequences of bytes holding UTF-8 text; the operations the source applies to them
  (comparison, concatenation, splitting at a dot, replacing backslashes) act on ASCII characters and
  are the same on bytes as on JavaScript's strings.

  \<open>s.split(c)\<close> for a one-character separator: never empty, \<open>"".split(".")\<close> is \<open>[""]\<close>.
\<close>

fun split :: "char \<Rightarrow> string \<Rightarrow> string list" where
  "split c [] = [[]]"
| "split c (x # xs) =
     (if x = c then [] # split c xs
      else (case split c xs of [] \<Rightarrow> [[x]] | s # ss \<Rightarrow> (x # s) # ss))"

text \<open>\<open>a.join(sep)\<close> on an array of strings.\<close>

fun array_join :: "string \<Rightarrow> string list \<Rightarrow> string" where
  "array_join sep [] = []"
| "array_join sep [x] = x"
| "array_join sep (x # y # zs) = x @ sep @ array_join sep (y # zs)"

definition backslash :: char where
  "backslash = CHR 0x5C"

text \<open>\<open>s.replaceAll\<close> of every backslash by a slash.\<close>

definition replaceAll_backslash :: "string \<Rightarrow> string" where
  "replaceAll_backslash s = map (\<lambda>c. if c = backslash then CHR ''/'' else c) s"

text \<open>
  \<open>join\<close> of \<open>node:path\<close> is library code. It is modelled as the library defines it on a POSIX
  host, for the two-argument calls of the source: the non-empty arguments are put together
  with \<open>/\<close> and the result is normalised. Normalising drops empty and \<open>.\<close> segments, lets a
  \<open>..\<close> segment remove the segment before it (or keeps it, in a relative path that has nothing
  left to remove), and keeps a leading and a trailing \<open>/\<close>. The stack of segments is held
  newest first.
\<close>

definition normalize_segment :: "bool \<Rightarrow> string list \<Rightarrow> string \<Rightarrow> string list" where
  "normalize_segment allowAboveRoot stack seg =
     (if seg = [] \<or> seg = ''.'' then stack
      else if seg = ''..'' then
        (case stack of
           [] \<Rightarrow> if allowAboveRoot then [''..''] else []
         | newest # below \<Rightarrow>
             if newest = ''..'' then (if allowAboveRoot then ''..'' # stack else stack)
             else below)
      else seg # stack)"

definition normalizeString :: "string \<Rightarrow> bool \<Rightarrow> string" where
  "normalizeString p allowAboveRoot =
     array_join ''/'' (rev (foldl (normalize_segment allowAboveRoot) [] (split CHR ''/'' p)))"

definition normalize :: "string \<Rightarrow> string" where
  "normalize p =
     (if p = [] then ''.''
      else
        (let isAbsolute = (hd p = CHR ''/'');
             trailingSeparator = (last p = CHR ''/'');
             q = normalizeString p (\<not> isAbsolute)
         in if q = [] then (if isAbsolute then ''/'' else if trailingSeparator then ''./'' else ''.'')
            else (let q' = (if trailingSeparator then q @ ''/'' else q)
                  in if isAbsolute then ''/'' @ q' else q')))"

definition join :: "string \<Rightarrow> string \<Rightarrow> string" where
  "join a b =
     (if a = [] \<and> b = [] then ''.''
      else if a = [] then normalize b
      else if b = [] then normalize a
      else normalize (a @ ''/'' @ b))"

section \<open>The MIME type of an extension\<close>

text \<open>The line the default branch of \<open>MIMEFromExt\<close> writes with \<open>console.log\<close>.\<close>

definition unknown_extension_line :: "string \<Rightarrow> string" where
  "unknown_extension_line extension =
     ''Encountered unknown extension while generating static routes: .'' @ extension @
     '' - If you want this fixed as quickly as possible, open an issue at https://github.com/SaphirDeFeu/TSMServerShell-Node/issues''"

definition MIMEFromExt :: "string \<Rightarrow> string io" where
  "MIMEFromExt extension =
     (if extension = ''html'' \<or> extension = ''htm'' then return_io ''text/html''
      else if extension = ''css'' then return_io ''text/css''
      else if extension = ''js'' \<or> extension = ''mjs'' then return_io ''text/javascript''
      else if extension = ''txt'' then return_io ''text/plain''
      else if extension = ''svg'' then return_io ''image/svg+xml''
      else if extension = ''apng'' then return_io ''image/apng''
      else if extension = ''png'' then return_io ''image/png''
      else if extension = ''gif'' then return_io ''image/gif''
      else if extension = ''jpg'' \<or> extension = ''jpeg'' then return_io ''image/jpeg''
      else if extension = ''ico'' then return_io ''image/vnd.microsoft.icon''
      else if extension = ''mp4'' then return_io ''video/mp4''
      else if extension = ''mpeg'' then return_io ''video/mpeg''
      else if extension = ''ogv'' then return_io ''video/ogg''
      else if extension = ''mp3'' then return_io ''audio/mpeg''
      else if extension = ''oga'' then return_io ''audio/ogg''
      else if extension = ''json'' then return_io ''application/json''
      else if extension = ''xml'' then return_io ''application/xml''
      else if extension = ''zip'' then return_io ''application/zip''
      else if extension = ''7z'' then return_io ''application/x-7z-compressed''
      else if extension = ''rar'' then return_io ''application/vnd.rar''
      else if extension = ''tar'' then return_io ''application/x-tar''
      else if extension = ''gz'' then return_io ''application/gzip''
      else if extension = ''php'' then return_io ''application/x-httpd-php''
      else if extension = ''pdf'' then return_io ''application/pdf''
      else if extension = ''sh'' then return_io ''application/x-sh''
      else if extension = ''otf'' then return_io ''font/otf''
      else if extension = ''ttf'' then return_io ''font/ttf''
      else bind_io (console_log (unknown_extension_line extension)) (\<lambda>_. return_io ''text/plain''))"

text \<open>
  The fixed table of the specification, as an association list: the listed extensions with
  the types the source returns for them.
\<close>

definition mime_table :: "(string \<times> string) list" where
  "mime_table =
     [(''html'', ''text/html''), (''htm'', ''text/html''), (''css'', ''text/css''),
      (''js'', ''text/javascript''), (''mjs'', ''text/javascript''), (''txt'', ''text/plain''),
      (''svg'', ''image/svg+xml''), (''apng'', ''image/apng''), (''png'', ''image/png''),
      (''gif'', ''image/gif''), (''jpg'', ''image/jpeg''), (''jpeg'', ''image/jpeg''),
      (''ico'', ''image/vnd.microsoft.icon''), (''mp4'', ''video/mp4''), (''mpeg'', ''video/mpeg''),
      (''ogv'', ''video/ogg''), (''mp3'', ''audio/mpeg''), (''oga'', ''audio/ogg''),
      (''json'', ''application/json''), (''xml'', ''application/xml''), (''zip'', ''application/zip''),
      (''7z'', ''application/x-7z-compressed''), (''rar'', ''application/vnd.rar''),
      (''tar'', ''application/x-tar''), (''gz'', ''application/gzip''),
      (''php'', ''application/x-httpd-php''), (''pdf'', ''application/pdf''),
      (''sh'', ''application/x-sh''), (''otf'', ''font/otf''), (''ttf'', ''font/ttf'')]"

text \<open>What \<open>MIMEFromExt\<close> returns and what it logs, read off the table.\<close>

definition mime_of :: "string \<Rightarrow> string" where
  "mime_of extension = (case map_of mime_table extension of Some mime \<Rightarrow> mime | None \<Rightarrow> ''text/plain'')"

definition mime_log :: "string \<Rightarrow> string list" where
  "mime_log extension =
     (case map_of mime_table extension of Some mime \<Rightarrow> [] | None \<Rightarrow> [unknown_extension_line extension])"

section \<open>Serving a directory\<close>

text \<open>
  The directory tree as \<open>readdirSync\<close>, \<open>lstatSync\<close> and \<open>readFileSync\<close> present it while the
  routes are set up: a directory lists its entries in the order \<open>readdirSync\<close> returns them, a
  regular file has its bytes, and \<open>Special\<close> is an entry that \<open>lstatSync\<close> reports as neither a
  directory nor a file (a symbolic link, a socket). \<open>None\<close> marks a directory that cannot
  be listed or a file that cannot be read: the call throws.
\<close>

datatype fsnode =
    File "bytes option"
  | Directory "(string \<times> fsnode) list option"
  | Special

text \<open>
  \<open>new TextDecoder('utf-8').decode\<close> is a parameter \<open>decode\<close> of the functions that read files.
  \<open>Buffer.byteLength\<close> of a string is the number of bytes of its UTF-8 form, which is the
  length of the string as it is held here.
\<close>

definition byteLength :: "string \<Rightarrow> nat" where
  "byteLength s = length s"

text \<open>The listener of \<open>useStatic\<close> in the TypeScript source.\<close>

definition static_listener :: "string \<Rightarrow> string \<Rightarrow> listener" where
  "static_listener extension contents req =
     bind_io (MIMEFromExt extension) (\<lambda>mime.
     bind_io (writeHead 200 [(''Content-Type'', Text mime)]) (\<lambda>_.
     res_end contents))"

text \<open>The listener of \<open>useStatic\<close> in \<open>dist/index.js\<close>.\<close>

definition static_listener_dist :: "string \<Rightarrow> string \<Rightarrow> listener" where
  "static_listener_dist extension contents req =
     bind_io (MIMEFromExt extension) (\<lambda>mime.
     bind_io (writeHead 200 [(''Content-Type'', Text mime),
                             (''Content-Length'', Number (byteLength contents))]) (\<lambda>_.
     res_end contents))"

text \<open>The listener of \<open>useDynamic\<close> in \<open>dist/index.js\<close>: the file is read when the request arrives.\<close>

definition dynamic_listener :: "(bytes \<Rightarrow> string) \<Rightarrow> string \<Rightarrow> string \<Rightarrow> listener" where
  "dynamic_listener decode pathnameDir extension req =
     bind_io (readFileSync pathnameDir) (\<lambda>b.
     (let assetContents = decode b in
      bind_io (MIMEFromExt extension) (\<lambda>mime.
      bind_io (writeHead 200 [(''Content-Type'', Text mime),
                              (''Content-Length'', Number (byteLength assetContents))]) (\<lambda>_.
      res_end assetContents))))"

text \<open>
  \<open>useStatic\<close> and \<open>useDynamic\<close> take the tree that \<open>staticDirectory\<close> names as an argument.
  Each is two functions: the method body up to its loop, which is \<open>readdirSync\<close> of the
  directory, and the loop over the entries, in which a subdirectory is a recursive call of
  the method. A throw of \<open>get\<close>, of a file system call or of the recursive call leaves the
  loop and the method, with the routes bound so far in place.
\<close>

text \<open>\<open>useStatic\<close> of the TypeScript source: the file is read and decoded during the walk.\<close>

fun useStatic :: "(bytes \<Rightarrow> string) \<Rightarrow> fsnode \<Rightarrow> string \<Rightarrow> string \<Rightarrow> unit shell_op"
and useStatic_for :: "(bytes \<Rightarrow> string) \<Rightarrow> (string \<times> fsnode) list \<Rightarrow> string \<Rightarrow> string \<Rightarrow> unit shell_op"
where
  "useStatic decode (Directory (Some contents)) staticDirectory staticRoute this =
     useStatic_for decode contents staticDirectory staticRoute this"
| "useStatic decode (Directory None) staticDirectory staticRoute this = (Inl (FilesystemError staticDirectory), this)"
| "useStatic decode (File data) staticDirectory staticRoute this = (Inl (FilesystemError staticDirectory), this)"
| "useStatic decode Special staticDirectory staticRoute this = (Inl (FilesystemError staticDirectory), this)"
| "useStatic_for decode [] staticDirectory staticRoute this = (Inr (), this)"
| "useStatic_for decode ((entry, Directory listing) # rest) staticDirectory staticRoute this =
     (let pathnameDir = join staticDirectory entry;
          pathnameRoute = join staticRoute entry
      in case useStatic decode (Directory listing) pathnameDir pathnameRoute this of
           (Inl e, this') \<Rightarrow> (Inl e, this')
         | (Inr _, this') \<Rightarrow> useStatic_for decode rest staticDirectory staticRoute this')"
| "useStatic_for decode ((entry, File data) # rest) staticDirectory staticRoute this =
     (let pathnameDir = join staticDirectory entry;
          pathnameRoute = join staticRoute entry
      in case data of
           None \<Rightarrow> (Inl (FilesystemError pathnameDir), this)
         | Some b \<Rightarrow>
             (let contents = decode b;
                  splitFileName = split CHR ''.'' entry;
                  extension = last splitFileName;
                  name = array_join ''.'' (butlast splitFileName);
                  pathnameRoute = (if name = ''index'' \<and> extension = ''html''
                                   then join pathnameRoute ''..'' else pathnameRoute)
              in case get (replaceAll_backslash pathnameRoute) (static_listener extension contents) this of
                   (Inl e, this') \<Rightarrow> (Inl e, this')
                 | (Inr _, this') \<Rightarrow> useStatic_for decode rest staticDirectory staticRoute this'))"
| "useStatic_for decode ((entry, Special) # rest) staticDirectory staticRoute this =
     useStatic_for decode rest staticDirectory staticRoute this"

text \<open>\<open>useStatic\<close> of \<open>dist/index.js\<close>: the same walk, binding the listener of the build.\<close>

fun useStatic_dist :: "(bytes \<Rightarrow> string) \<Rightarrow> fsnode \<Rightarrow> string \<Rightarrow> string \<Rightarrow> unit shell_op"
and useStatic_dist_for :: "(bytes \<Rightarrow> string) \<Rightarrow> (string \<times> fsnode) list \<Rightarrow> string \<Rightarrow> string \<Rightarrow> unit shell_op"
where
  "useStatic_dist decode (Directory (Some contents)) staticDirectory staticRoute this =
     useStatic_dist_for decode contents staticDirectory staticRoute this"
| "useStatic_dist decode (Directory None) staticDirectory staticRoute this = (Inl (FilesystemError staticDirectory), this)"
| "useStatic_dist decode (File data) staticDirectory staticRoute this = (Inl (FilesystemError staticDirectory), this)"
| "useStatic_dist decode Special staticDirectory staticRoute this = (Inl (FilesystemError staticDirectory), this)"
| "useStatic_dist_for decode [] staticDirectory staticRoute this = (Inr (), this)"
| "useStatic_dist_for decode ((entry, Directory listing) # rest) staticDirectory staticRoute this =
     (let pathnameDir = join staticDirectory entry;
          pathnameRoute = join staticRoute entry
      in case useStatic_dist decode (Directory listing) pathnameDir pathnameRoute this of
           (Inl e, this') \<Rightarrow> (Inl e, this')
         | (Inr _, this') \<Rightarrow> useStatic_dist_for decode rest staticDirectory staticRoute this')"
| "useStatic_dist_for decode ((entry, File data) # rest) staticDirectory staticRoute this =
     (let pathnameDir = join staticDirectory entry;
          pathnameRoute = join staticRoute entry
      in case data of
           None \<Rightarrow> (Inl (FilesystemError pathnameDir), this)
         | Some b \<Rightarrow>
             (let contents = decode b;
                  splitFileName = split CHR ''.'' entry;
                  extension = last splitFileName;
                  name = array_join ''.'' (butlast splitFileName);
                  pathnameRoute = (if name = ''index'' \<and> extension = ''html''
                                   then join pathnameRoute ''..'' else pathnameRoute)
              in case get (replaceAll_backslash pathnameRoute) (static_listener_dist extension contents) this of
                   (Inl e, this') \<Rightarrow> (Inl e, this')
                 | (Inr _, this') \<Rightarrow> useStatic_dist_for decode rest staticDirectory staticRoute this'))"
| "useStatic_dist_for decode ((entry, Special) # rest) staticDirectory staticRoute this =
     useStatic_dist_for decode rest staticDirectory staticRoute this"

text \<open>\<open>useDynamic\<close> of \<open>dist/index.js\<close>: no file is read during the walk.\<close>

fun useDynamic :: "(bytes \<Rightarrow> string) \<Rightarrow> fsnode \<Rightarrow> string \<Rightarrow> string \<Rightarrow> unit shell_op"
and useDynamic_for :: "(bytes \<Rightarrow> string) \<Rightarrow> (string \<times> fsnode) list \<Rightarrow> string \<Rightarrow> string \<Rightarrow> unit shell_op"
where
  "useDynamic decode (Directory (Some contents)) directory route this =
     useDynamic_for decode contents directory route this"
| "useDynamic decode (Directory None) directory route this = (Inl (FilesystemError directory), this)"
| "useDynamic decode (File data) directory route this = (Inl (FilesystemError directory), this)"
| "useDynamic decode Special directory route this = (Inl (FilesystemError directory), this)"
| "useDynamic_for decode [] directory route this = (Inr (), this)"
| "useDynamic_for decode ((entry, Directory listing) # rest) directory route this =
     (let pathnameDir = join directory entry;
          pathnameRoute = join route entry
      in case useDynamic decode (Directory listing) pathnameDir pathnameRoute this of
           (Inl e, this') \<Rightarrow> (Inl e, this')
         | (Inr _, this') \<Rightarrow> useDynamic_for decode rest directory route this')"
| "useDynamic_for decode ((entry, File data) # rest) directory route this =
     (let pathnameDir = join directory entry;
          pathnameRoute = join route entry;
          splitFileName = split CHR ''.'' entry;
          extension = last splitFileName;
          name = array_join ''.'' (butlast splitFileName);
          pathnameRoute = (if name = ''index'' \<and> extension = ''html''
                           then join pathnameRoute ''..'' else pathnameRoute)
      in case get (replaceAll_backslash pathnameRoute)
                (dynamic_listener decode pathnameDir extension) this of
           (Inl e, this') \<Rightarrow> (Inl e, this')
         | (Inr _, this') \<Rightarrow> useDynamic_for decode rest directory route this')"
| "useDynamic_for decode ((entry, Special) # rest) directory route this =
     useDynamic_for decode rest directory route this"

section \<open>Specification-level notions\<close>

text \<open>
  The lookup rule of the specification: a binding matches a request when the paths are equal
  and the binding's method is the request's or \<open>ANY\<close>.
\<close>

definition matches :: "Route \<Rightarrow> request \<Rightarrow> bool" where
  "matches r req \<longleftrightarrow> path r = url req \<and> (method r = req_method req \<or> method r = ''ANY'')"

text \<open>Calling the callbacks of a list of routes one after the other, until one throws.\<close>

fun call_all :: "Route list \<Rightarrow> request \<Rightarrow> unit io" where
  "call_all [] req = return_io ()"
| "call_all (r # rs) req = bind_io (callback r req) (\<lambda>_. call_all rs req)"

text \<open>
  What the listener does for a request that no binding matches: the 404 response, by
  \<open>writeHead\<close>, which throws when the head has been written, and then \<open>end\<close>.
\<close>

definition not_found :: "request \<Rightarrow> unit io" where
  "not_found req =
     bind_io (writeHead 404 [(''Content-Type'', Text ''text/html'')]) (\<lambda>_.
     res_end (''Cannot get '' @ url req))"

definition dispatch_routes :: "Route list \<Rightarrow> request \<Rightarrow> unit io" where
  "dispatch_routes rs req =
     (case filter (\<lambda>r. matches r req) rs of
        [] \<Rightarrow> not_found req
      | ms \<Rightarrow> call_all ms req)"

text \<open>No binding of the list conflicts with a later one.\<close>

fun conflict_free :: "Route list \<Rightarrow> bool" where
  "conflict_free [] = True"
| "conflict_free (r # rs) = ((\<forall>x\<in>set rs. \<not> conflicts r (path x) (method x)) \<and> conflict_free rs)"

text \<open>
  The shells that the public operations build from a new one. A registration that throws
  leaves the shell it was applied to, which the caller may go on using; so does a walk that
  throws halfway, with the routes bound so far.
\<close>

inductive reachable :: "ServerShell \<Rightarrow> bool" where
  new: "reachable new_ServerShell"
| use: "reachable this \<Longrightarrow> reachable (use mw this)"
| register: "reachable this \<Longrightarrow> reachable (snd (register v p h this))"
| useStatic: "reachable this \<Longrightarrow> reachable (snd (useStatic decode node directory route this))"
| useStatic_dist: "reachable this \<Longrightarrow> reachable (snd (useStatic_dist decode node directory route this))"
| useDynamic: "reachable this \<Longrightarrow> reachable (snd (useDynamic decode node directory route this))"

section \<open>The walk as a list of steps\<close>

text \<open>
  Devices for the proofs. The three methods are one walk, written here over \<open>bind\<close>: given
  the path of the file on disk, what the tree holds for it and its extension, \<open>bind\<close> reads
  the file if the method does so (and may throw) and gives the listener to register.
\<close>

fun walk :: "(string \<Rightarrow> bytes option \<Rightarrow> string \<Rightarrow> error + listener) \<Rightarrow> fsnode \<Rightarrow> string \<Rightarrow> string \<Rightarrow> unit shell_op"
and walk_entries :: "(string \<Rightarrow> bytes option \<Rightarrow> string \<Rightarrow> error + listener) \<Rightarrow> (string \<times> fsnode) list \<Rightarrow> string \<Rightarrow> string \<Rightarrow> unit shell_op"
where
  "walk bind (Directory (Some contents)) directory route this =
     walk_entries bind contents directory route this"
| "walk bind (Directory None) directory route this = (Inl (FilesystemError directory), this)"
| "walk bind (File data) directory route this = (Inl (FilesystemError directory), this)"
| "walk bind Special directory route this = (Inl (FilesystemError directory), this)"
| "walk_entries bind [] directory route this = (Inr (), this)"
| "walk_entries bind ((entry, Directory listing) # rest) directory route this =
     (let pathnameDir = join directory entry;
          pathnameRoute = join route entry
      in case walk bind (Directory listing) pathnameDir pathnameRoute this of
           (Inl e, this') \<Rightarrow> (Inl e, this')
         | (Inr _, this') \<Rightarrow> walk_entries bind rest directory route this')"
| "walk_entries bind ((entry, File data) # rest) directory route this =
     (let pathnameDir = join directory entry;
          pathnameRoute = join route entry;
          splitFileName = split CHR ''.'' entry;
          extension = last splitFileName;
          name = array_join ''.'' (butlast splitFileName);
          pathnameRoute = (if name = ''index'' \<and> extension = ''html''
                           then join pathnameRoute ''..'' else pathnameRoute)
      in case bind pathnameDir data extension of
           Inl e \<Rightarrow> (Inl e, this)
         | Inr listener \<Rightarrow>
             (case get (replaceAll_backslash pathnameRoute) listener this of
                (Inl e, this') \<Rightarrow> (Inl e, this')
              | (Inr _, this') \<Rightarrow> walk_entries bind rest directory route this'))"
| "walk_entries bind ((entry, Special) # rest) directory route this =
     walk_entries bind rest directory route this"

definition static_bind :: "(bytes \<Rightarrow> string) \<Rightarrow> string \<Rightarrow> bytes option \<Rightarrow> string \<Rightarrow> error + listener" where
  "static_bind decode pathnameDir data extension =
     (case data of
        None \<Rightarrow> Inl (FilesystemError pathnameDir)
      | Some b \<Rightarrow> Inr (static_listener extension (decode b)))"

definition static_bind_dist :: "(bytes \<Rightarrow> string) \<Rightarrow> string \<Rightarrow> bytes option \<Rightarrow> string \<Rightarrow> error + listener" where
  "static_bind_dist decode pathnameDir data extension =
     (case data of
        None \<Rightarrow> Inl (FilesystemError pathnameDir)
      | Some b \<Rightarrow> Inr (static_listener_dist extension (decode b)))"

definition dynamic_bind :: "(bytes \<Rightarrow> string) \<Rightarrow> string \<Rightarrow> bytes option \<Rightarrow> string \<Rightarrow> error + listener" where
  "dynamic_bind decode pathnameDir data extension = Inr (dynamic_listener decode pathnameDir extension)"

text \<open>
  The steps a walk goes through, in order. Each regular file gives one step, the
  registration of its route with \<open>get\<close>, or the failure to read it; a directory that cannot be
  listed gives a failure. Running the steps stops at the first failure and at the first
  registration that throws.
\<close>

datatype step = Bind string listener | Fail error

fun plan :: "(string \<Rightarrow> bytes option \<Rightarrow> string \<Rightarrow> error + listener) \<Rightarrow> fsnode \<Rightarrow> string \<Rightarrow> string \<Rightarrow> step list"
and plan_entries :: "(string \<Rightarrow> bytes option \<Rightarrow> string \<Rightarrow> error + listener) \<Rightarrow> (string \<times> fsnode) list \<Rightarrow> string \<Rightarrow> string \<Rightarrow> step list"
where
  "plan bind (Directory (Some contents)) directory route = plan_entries bind contents directory route"
| "plan bind (Directory None) directory route = [Fail (FilesystemError directory)]"
| "plan bind (File data) directory route = [Fail (FilesystemError directory)]"
| "plan bind Special directory route = [Fail (FilesystemError directory)]"
| "plan_entries bind [] directory route = []"
| "plan_entries bind ((entry, Directory listing) # rest) directory route =
     plan bind (Directory listing) (join directory entry) (join route entry)
     @ plan_entries bind rest directory route"
| "plan_entries bind ((entry, File data) # rest) directory route =
     (let extension = last (split CHR ''.'' entry);
          name = array_join ''.'' (butlast (split CHR ''.'' entry));
          pathnameRoute = (if name = ''index'' \<and> extension = ''html''
                           then join (join route entry) ''..'' else join route entry)
      in (case bind (join directory entry) data extension of
            Inl e \<Rightarrow> Fail e
          | Inr listener \<Rightarrow> Bind (replaceAll_backslash pathnameRoute) listener)
         # plan_entries bind rest directory route)"
| "plan_entries bind ((entry, Special) # rest) directory route = plan_entries bind rest directory route"

fun run_plan :: "step list \<Rightarrow> unit shell_op" where
  "run_plan [] this = (Inr (), this)"
| "run_plan (Fail e # rest) this = (Inl e, this)"
| "run_plan (Bind p listener # rest) this =
     (case get p listener this of
        (Inl e, this') \<Rightarrow> (Inl e, this')
      | (Inr _, this') \<Rightarrow> run_plan rest this')"

fun bound :: "step list \<Rightarrow> Route list" where
  "bound [] = []"
| "bound (Bind p listener # rest) = \<lparr>path = p, method = ''GET'', callback = listener\<rparr> # bound rest"
| "bound (Fail e # rest) = bound rest"

section \<open>The files of a tree and their routes\<close>

text \<open>
  The extension and the name the loop body computes from an entry: the part after the last
  dot, and what is before it.
\<close>

definition extension_of :: "string \<Rightarrow> string" where
  "extension_of entry = last (split CHR ''.'' entry)"

definition name_of :: "string \<Rightarrow> string" where
  "name_of entry = array_join ''.'' (butlast (split CHR ''.'' entry))"

text \<open>
  The regular files below a node, in the order of the walk, each with its path relative to
  the node (the names of the entries leading to it) and what the tree holds for it.
\<close>

fun files_under :: "fsnode \<Rightarrow> (string list \<times> bytes option) list"
and files_in :: "(string \<times> fsnode) list \<Rightarrow> (string list \<times> bytes option) list" where
  "files_under (Directory (Some contents)) = files_in contents"
| "files_under (Directory None) = []"
| "files_under (File data) = []"
| "files_under Special = []"
| "files_in [] = []"
| "files_in ((entry, Directory listing) # rest) =
     map (\<lambda>(segs, data). (entry # segs, data)) (files_under (Directory listing)) @ files_in rest"
| "files_in ((entry, File data) # rest) = ([entry], data) # files_in rest"
| "files_in ((entry, Special) # rest) = files_in rest"

text \<open>
  The route under which the walk binds the file at a relative path: the route of the walk
  joined with the names one after the other, taken one level up for \<open>index.html\<close>, with every
  backslash replaced.
\<close>

definition walked_route :: "string \<Rightarrow> string list \<Rightarrow> string" where
  "walked_route route segs =
     replaceAll_backslash
       (if name_of (last segs) = ''index'' \<and> extension_of (last segs) = ''html''
        then join (foldl join route segs) ''..'' else foldl join route segs)"

text \<open>A step that binds the file \<open>f\<close>: its route, and the listener \<open>bind\<close> gives for it.\<close>

definition binds :: "(string \<Rightarrow> bytes option \<Rightarrow> string \<Rightarrow> error + listener) \<Rightarrow> string \<Rightarrow> string \<Rightarrow>
    step \<Rightarrow> string list \<times> bytes option \<Rightarrow> bool" where
  "binds bind directory route st f =
     (case f of (segs, data) \<Rightarrow>
        segs \<noteq> [] \<and>
        (\<exists>listener. st = Bind (walked_route route segs) listener \<and>
           bind (foldl join directory segs) data (extension_of (last segs)) = Inr listener))"

text \<open>
  The names a directory listing can hold: not empty, free of \<open>/\<close>, and neither \<open>.\<close> nor
  \<open>..\<close>; and the trees all of whose entries are so named.
\<close>

definition valid_name :: "string \<Rightarrow> bool" where
  "valid_name s \<longleftrightarrow> s \<noteq> [] \<and> CHR ''/'' \<notin> set s \<and> s \<noteq> ''.'' \<and> s \<noteq> ''..''"

fun valid_tree :: "fsnode \<Rightarrow> bool"
and valid_entries :: "(string \<times> fsnode) list \<Rightarrow> bool" where
  "valid_tree (Directory (Some contents)) = valid_entries contents"
| "valid_tree (Directory None) = True"
| "valid_tree (File data) = True"
| "valid_tree Special = True"
| "valid_entries [] = True"
| "valid_entries ((entry, node) # rest) = (valid_name entry \<and> valid_tree node \<and> valid_entries rest)"

text \<open>
  The route of a file in the words of the specification, for a route prefix \<open>/p1/.../pk\<close>
  given by its segments: the prefix followed by the relative path of the file, or by the
  relative path of its directory when the file is \<open>index.html\<close>, with \<open>/\<close> between the
  segments and every backslash replaced.
\<close>

definition abs_path :: "string list \<Rightarrow> string" where
  "abs_path segs = ''/'' @ array_join ''/'' segs"

definition spec_route :: "string list \<Rightarrow> string list \<Rightarrow> string" where
  "spec_route prefix segs =
     replaceAll_backslash
       (abs_path (prefix @ (if last segs = ''index.html'' then butlast segs else segs)))"

subsection \<open>Trees on which the walk succeeds\<close>

text \<open>
  Trees in which every directory can be listed and every file read; an entry that is
  neither a directory nor a file is passed over by the walk. A walk over the entries of
  such a directory can only fail at a registration.
\<close>

fun readable :: "fsnode \<Rightarrow> bool"
and readable_entries :: "(string \<times> fsnode) list \<Rightarrow> bool" where
  "readable (Directory (Some contents)) = readable_entries contents"
| "readable (Directory None) = False"
| "readable (File data) = (data \<noteq> None)"
| "readable Special = True"
| "readable_entries [] = True"
| "readable_entries ((entry, node) # rest) = (readable node \<and> readable_entries rest)"

text \<open>
  Trees as a file system without a backslash in a name presents them: every entry has a name
  of a directory listing without a backslash, no two entries of a directory have the same
  name, every directory can be listed and every file read.
\<close>

definition plain_name :: "string \<Rightarrow> bool" where
  "plain_name s \<longleftrightarrow> valid_name s \<and> backslash \<notin> set s"

fun well_formed :: "fsnode \<Rightarrow> bool"
and well_formed_entries :: "(string \<times> fsnode) list \<Rightarrow> bool" where
  "well_formed (Directory (Some contents)) = well_formed_entries contents"
| "well_formed (Directory None) = False"
| "well_formed (File data) = (data \<noteq> None)"
| "well_formed Special = True"
| "well_formed_entries [] = True"
| "well_formed_entries ((entry, node) # rest) =
     (plain_name entry \<and> entry \<notin> fst ` set rest \<and> well_formed node \<and> well_formed_entries rest)"

text \<open>The step of \<open>useStatic\<close> for a file that can be read.\<close>

definition static_step :: "(bytes \<Rightarrow> string) \<Rightarrow> string \<Rightarrow> string list \<times> bytes option \<Rightarrow> step" where
  "static_step decode route f =
     Bind (walked_route route (fst f))
          (static_listener (extension_of (last (fst f))) (decode (the (snd f))))"

text \<open>Relative paths none of which is another one continued.\<close>

definition prefix_free :: "string list list \<Rightarrow> bool" where
  "prefix_free ps \<longleftrightarrow> distinct ps \<and> (\<forall>a\<in>set ps. \<forall>b\<in>set ps. (\<exists>t. b = a @ t) \<longrightarrow> a = b)"

text \<open>The relative path that names the route of a file: without a final \<open>index.html\<close>.\<close>

definition strip_index :: "string list \<Rightarrow> string list" where
  "strip_index segs = (if last segs = ''index.html'' then butlast segs else segs)"

section \<open>Inputs for evaluation\<close>

text \<open>
  A listener that ends the response with a given body, a world with nothing in it, and a
  shell with two routes.
\<close>

definition say :: "string \<Rightarrow> listener" where
  "say body req = res_end body"

definition example_world :: world where
  "example_world = \<lparr>files = (\<lambda>p. None), console = [], res = []\<rparr>"

text \<open>
  Two middleware functions: one that answers every request itself, with status 401, and one
  that writes a line to the console and leaves the response alone.
\<close>

definition refuse :: listener where
  "refuse req = bind_io (writeHead 401 []) (\<lambda>_. res_end ''no'')"

definition note_line :: "string \<Rightarrow> listener" where
  "note_line line req = console_log line"

definition example_shell :: ServerShell where
  "example_shell =
     snd (register ANY ''/b'' (say ''b'') (snd (register GET ''/a'' (say ''a'') new_ServerShell)))"

text \<open>A shell in which \<open>/assets/sub/b.png\<close> is bound for every method.\<close>

definition claimed_shell :: ServerShell where
  "claimed_shell = snd (any ''/assets/sub/b.png'' (say ''x'') new_ServerShell)"

text \<open>
  A decoder that takes each byte for a character, four trees, and a world in which
  \<open>/root/a.txt\<close> holds \<open>ho\<close>.
\<close>

definition decode_ascii :: "bytes \<Rightarrow> string" where
  "decode_ascii bs = map (\<lambda>b. char_of (unat b)) bs"

definition example_tree :: fsnode where
  "example_tree =
     Directory (Some
       [(''a.txt'', File (Some [104, 105])),
        (''sub'', Directory (Some
           [(''b.png'', File (Some [137, 80, 78, 71])),
            (''index.html'', File (Some [60, 112, 62]))]))])"

definition clash_tree :: fsnode where
  "clash_tree =
     Directory (Some
       [(''a'', Directory (Some [(''b.txt'', File (Some [104, 105]))])),
        (''a'' @ [backslash] @ ''b.txt'', File (Some [104, 111]))])"

definition one_file_tree :: fsnode where
  "one_file_tree = Directory (Some [(''a.txt'', File (Some [104, 105]))])"

definition makefile_tree :: fsnode where
  "makefile_tree = Directory (Some [(''Makefile'', File (Some [104, 105]))])"

definition edited_world :: world where
  "edited_world = \<lparr>files = (\<lambda>p. if p = ''/root/a.txt'' then Some [104, 111] else None),
                    console = [], res = []\<rparr>"

section \<open>Properties of registration\<close>

lemma forEach_None: "forEach f xs = None \<longleftrightarrow> (\<forall>x\<in>set xs. f x = None)"
  by (induction xs) (auto split: option.splits)

lemma forEach_const:
  "forEach (\<lambda>x. if P x then Some e else None) xs = (if \<exists>x\<in>set xs. P x then Some e else None)"
  by (induction xs) auto

text \<open>
  C1. A registration operation raises \<open>RouteAlreadyBoundError\<close> exactly when an existing
  binding has the same path and the same method, or either method is \<open>ANY\<close>; then the shell is
  returned as it was. Otherwise the new binding is appended and nothing else changes.
\<close>

theorem register_conflict_rule:
  "register v p h this =
     (if \<exists>r\<in>set (routes this). conflicts r p (verb_name v)
      then (Inl (RouteAlreadyBoundError p), this)
      else (Inr (), this\<lparr>routes := routes this @ [\<lparr>path = p, method = verb_name v, callback = h\<rparr>]\<rparr>))"
  by (cases v)
     (simp_all add: get_def post_def put_def delete_def options_dist_def any_def
        forEach_const conflicts_def push_def)

theorem register_conflict_rule_witness:
  "register GET ''/a'' (\<lambda>req. return_io ()) (snd (register ANY ''/a'' (\<lambda>req. return_io ()) new_ServerShell))
     = (Inl (RouteAlreadyBoundError ''/a''),
        \<lparr>routes = [\<lparr>path = ''/a'', method = ''ANY'', callback = (\<lambda>req. return_io ())\<rparr>],
         middleware = (\<lambda>req. return_io ())\<rparr>)"
  using register_conflict_rule [of ANY "''/a''" "\<lambda>req. return_io ()" new_ServerShell]
        register_conflict_rule [of GET "''/a''" "\<lambda>req. return_io ()"
          "\<lparr>routes = [\<lparr>path = ''/a'', method = ''ANY'', callback = (\<lambda>req. return_io ())\<rparr>],
            middleware = (\<lambda>req. return_io ())\<rparr>"]
  by (simp add: new_ServerShell_def conflicts_def)

lemma get_eq:
  "get p h this =
     (if \<exists>r\<in>set (routes this). conflicts r p ''GET''
      then (Inl (RouteAlreadyBoundError p), this)
      else (Inr (), this\<lparr>routes := routes this @ [\<lparr>path = p, method = ''GET'', callback = h\<rparr>]\<rparr>))"
  by (simp add: get_def forEach_const conflicts_def push_def)

lemma register_eq:
  "register v p h this =
     (if \<exists>r\<in>set (routes this). conflicts r p (verb_name v)
      then (Inl (RouteAlreadyBoundError p), this)
      else (Inr (), this\<lparr>routes := routes this @ [\<lparr>path = p, method = verb_name v, callback = h\<rparr>]\<rparr>))"
  by (cases v)
     (simp_all add: get_def post_def put_def delete_def options_dist_def any_def
        forEach_const conflicts_def push_def)

lemma example_shell_eq:
  "example_shell =
     \<lparr>routes = [\<lparr>path = ''/a'', method = ''GET'', callback = say ''a''\<rparr>,
                \<lparr>path = ''/b'', method = ''ANY'', callback = say ''b''\<rparr>],
      middleware = (\<lambda>req. return_io ())\<rparr>"
  by (simp add: example_shell_def register_eq new_ServerShell_def conflicts_def del: register.simps)

lemma conflict_free_append:
  "conflict_free (rs @ [r]) \<longleftrightarrow>
     conflict_free rs \<and> (\<forall>x\<in>set rs. \<not> conflicts x (path r) (method r))"
  by (induction rs) auto

lemma register_conflict_free:
  "conflict_free (routes this) \<Longrightarrow> conflict_free (routes (snd (register v p h this)))"
  by (simp add: register_eq conflict_free_append)

lemma register_middleware: "middleware (snd (register v p h this)) = middleware this"
  by (simp add: register_eq)

section \<open>Running a walk\<close>

lemma run_plan_append:
  "run_plan (xs @ ys) this =
     (case run_plan xs this of
        (Inl e, this') \<Rightarrow> (Inl e, this')
      | (Inr _, this') \<Rightarrow> run_plan ys this')"
proof (induction xs arbitrary: this)
  case Nil
  show ?case by simp
next
  case (Cons x xs)
  show ?case
  proof (cases x)
    case (Bind p l)
    then show ?thesis by (simp add: Cons.IH split: prod.splits sum.splits)
  next
    case (Fail e)
    then show ?thesis by simp
  qed
qed

lemma walk_run_plan:
  "walk bind node directory route this = run_plan (plan bind node directory route) this"
  "walk_entries bind entries directory route this = run_plan (plan_entries bind entries directory route) this"
proof (induction bind node directory route this and bind entries directory route this
       rule: walk_walk_entries.induct)
  case (6 bind entry listing rest directory route this)
  show ?case
  proof (cases "walk bind (Directory listing) (join directory entry) (join route entry) this")
    case (Pair r s1)
    show ?thesis
    proof (cases r)
      case (Inl e)
      then show ?thesis using Pair 6(1)[OF refl refl] by (simp add: Let_def run_plan_append)
    next
      case (Inr u)
      then show ?thesis using Pair 6(1)[OF refl refl] 6(2)[OF refl refl Pair[symmetric] Inr]
        by (simp add: Let_def run_plan_append)
    qed
  qed
next
  case (7 bind entry data rest directory route this)
  let ?ext = "last (split CHR ''.'' entry)"
  let ?name = "array_join ''.'' (butlast (split CHR ''.'' entry))"
  let ?route = "if ?name = ''index'' \<and> ?ext = ''html''
                then join (join route entry) ''..'' else join route entry"
  show ?case
  proof (cases "bind (join directory entry) data ?ext")
    case (Inl e)
    then show ?thesis by (simp add: Let_def)
  next
    case (Inr listener)
    show ?thesis
    proof (cases "get (replaceAll_backslash ?route) listener this")
      case (Pair r s1)
      show ?thesis
      proof (cases r)
        case (Inl e)
        then show ?thesis using Pair \<open>bind (join directory entry) data ?ext = Inr listener\<close>
          by (simp add: Let_def)
      next
        case (Inr u)
        have "walk_entries bind rest directory route s1 = run_plan (plan_entries bind rest directory route) s1"
          using 7(1)[OF refl refl refl refl refl refl \<open>bind (join directory entry) data ?ext = Inr listener\<close> Pair[symmetric] Inr] .
        then show ?thesis using Pair Inr \<open>bind (join directory entry) data ?ext = Inr listener\<close>
          by (simp add: Let_def)
      qed
    qed
  qed
qed simp_all

lemma static_bind_simps:
  "static_bind decode p None e = Inl (FilesystemError p)"
  "static_bind decode p (Some b) e = Inr (static_listener e (decode b))"
  by (simp_all add: static_bind_def)

lemma static_bind_dist_simps:
  "static_bind_dist decode p None e = Inl (FilesystemError p)"
  "static_bind_dist decode p (Some b) e = Inr (static_listener_dist e (decode b))"
  by (simp_all add: static_bind_dist_def)

lemma useStatic_walk:
  "useStatic decode node directory route this = walk (static_bind decode) node directory route this"
  "useStatic_for decode entries directory route this = walk_entries (static_bind decode) entries directory route this"
proof (induction decode node directory route this and decode entries directory route this
       rule: useStatic_useStatic_for.induct)
  case (6 decode entry listing rest directory route this)
  show ?case
  proof (cases "useStatic decode (Directory listing) (join directory entry) (join route entry) this")
    case (Pair r s1)
    show ?thesis
    proof (cases r)
      case (Inl e)
      then show ?thesis using Pair 6(1)[OF refl refl] by (simp add: Let_def)
    next
      case (Inr u)
      then show ?thesis using Pair 6(1)[OF refl refl] 6(2)[OF refl refl Pair[symmetric] Inr]
        by (simp add: Let_def)
    qed
  qed
next
  case (7 decode entry data rest directory route this)
  let ?ext = "last (split CHR ''.'' entry)"
  let ?name = "array_join ''.'' (butlast (split CHR ''.'' entry))"
  let ?route = "if ?name = ''index'' \<and> ?ext = ''html''
                then join (join route entry) ''..'' else join route entry"
  show ?case
  proof (cases data)
    case None
    then show ?thesis by (simp add: Let_def static_bind_simps)
  next
    case (Some b)
    show ?thesis
    proof (cases "get (replaceAll_backslash ?route) (static_listener ?ext (decode b)) this")
      case (Pair r s1)
      show ?thesis
      proof (cases r)
        case (Inl e)
        then show ?thesis using Pair Some by (simp add: Let_def static_bind_simps)
      next
        case (Inr u)
        have "useStatic_for decode rest directory route s1 = walk_entries (static_bind decode) rest directory route s1"
          using 7(1)[OF refl refl Some refl refl refl refl refl Pair[symmetric] Inr] .
        then show ?thesis using Pair Inr Some by (simp add: Let_def static_bind_simps)
      qed
    qed
  qed
qed simp_all

lemma useStatic_dist_walk:
  "useStatic_dist decode node directory route this = walk (static_bind_dist decode) node directory route this"
  "useStatic_dist_for decode entries directory route this = walk_entries (static_bind_dist decode) entries directory route this"
proof (induction decode node directory route this and decode entries directory route this
       rule: useStatic_dist_useStatic_dist_for.induct)
  case (6 decode entry listing rest directory route this)
  show ?case
  proof (cases "useStatic_dist decode (Directory listing) (join directory entry) (join route entry) this")
    case (Pair r s1)
    show ?thesis
    proof (cases r)
      case (Inl e)
      then show ?thesis using Pair 6(1)[OF refl refl] by (simp add: Let_def)
    next
      case (Inr u)
      then show ?thesis using Pair 6(1)[OF refl refl] 6(2)[OF refl refl Pair[symmetric] Inr]
        by (simp add: Let_def)
    qed
  qed
next
  case (7 decode entry data rest directory route this)
  let ?ext = "last (split CHR ''.'' entry)"
  let ?name = "array_join ''.'' (butlast (split CHR ''.'' entry))"
  let ?route = "if ?name = ''index'' \<and> ?ext = ''html''
                then join (join route entry) ''..'' else join route entry"
  show ?case
  proof (cases data)
    case None
    then show ?thesis by (simp add: Let_def static_bind_dist_simps)
  next
    case (Some b)
    show ?thesis
    proof (cases "get (replaceAll_backslash ?route) (static_listener_dist ?ext (decode b)) this")
      case (Pair r s1)
      show ?thesis
      proof (cases r)
        case (Inl e)
        then show ?thesis using Pair Some by (simp add: Let_def static_bind_dist_simps)
      next
        case (Inr u)
        have "useStatic_dist_for decode rest directory route s1 = walk_entries (static_bind_dist decode) rest directory route s1"
          using 7(1)[OF refl refl Some refl refl refl refl refl Pair[symmetric] Inr] .
        then show ?thesis using Pair Inr Some by (simp add: Let_def static_bind_dist_simps)
      qed
    qed
  qed
qed simp_all

lemma useDynamic_walk:
  "useDynamic decode node directory route this = walk (dynamic_bind decode) node directory route this"
  "useDynamic_for decode entries directory route this = walk_entries (dynamic_bind decode) entries directory route this"
proof (induction decode node directory route this and decode entries directory route this
       rule: useDynamic_useDynamic_for.induct)
  case (6 decode entry listing rest directory route this)
  show ?case
  proof (cases "useDynamic decode (Directory listing) (join directory entry) (join route entry) this")
    case (Pair r s1)
    show ?thesis
    proof (cases r)
      case (Inl e)
      then show ?thesis using Pair 6(1)[OF refl refl] by (simp add: Let_def)
    next
      case (Inr u)
      then show ?thesis using Pair 6(1)[OF refl refl] 6(2)[OF refl refl Pair[symmetric] Inr]
        by (simp add: Let_def)
    qed
  qed
next
  case (7 decode entry data rest directory route this)
  let ?ext = "last (split CHR ''.'' entry)"
  let ?name = "array_join ''.'' (butlast (split CHR ''.'' entry))"
  let ?route = "if ?name = ''index'' \<and> ?ext = ''html''
                then join (join route entry) ''..'' else join route entry"
  have db: "dynamic_bind decode (join directory entry) data ?ext
              = Inr (dynamic_listener decode (join directory entry) ?ext)"
    by (simp add: dynamic_bind_def)
  show ?case
  proof (cases "get (replaceAll_backslash ?route)
                  (dynamic_listener decode (join directory entry) ?ext) this")
    case (Pair r s1)
    show ?thesis
    proof (cases r)
      case (Inl e)
      then show ?thesis using Pair by (simp add: Let_def db)
    next
      case (Inr u)
      have "useDynamic_for decode rest directory route s1 = walk_entries (dynamic_bind decode) rest directory route s1"
        using 7(1)[OF refl refl refl refl refl refl Pair[symmetric] Inr] .
      then show ?thesis using Pair Inr by (simp add: Let_def db)
    qed
  qed
qed simp_all

lemma run_plan_invariant:
  assumes step: "\<And>p h s. Bind p h \<in> set steps \<Longrightarrow> I s \<Longrightarrow> I (snd (get p h s))"
  shows "I this \<Longrightarrow> I (snd (run_plan steps this))"
  using step
proof (induction steps arbitrary: this)
  case Nil
  then show ?case by simp
next
  case (Cons x xs)
  show ?case
  proof (cases x)
    case (Fail e)
    then show ?thesis using Cons.prems by simp
  next
    case (Bind p l)
    have I1: "I (snd (get p l this))" using Cons.prems Bind by simp
    have "I (snd (run_plan xs (snd (get p l this))))"
      using Cons.IH[OF I1] Cons.prems(2) by simp
    then show ?thesis using Bind I1
      by (cases "get p l this") (auto split: sum.splits)
  qed
qed

lemma run_plan_routes:
  "\<exists>k\<le>length steps. snd (run_plan steps this) = this\<lparr>routes := routes this @ bound (take k steps)\<rparr>"
proof (induction steps arbitrary: this)
  case Nil
  show ?case by simp
next
  case (Cons x xs)
  show ?case
  proof (cases x)
    case (Fail e)
    then show ?thesis by (intro exI[of _ 0]) simp
  next
    case (Bind p l)
    show ?thesis
    proof (cases "\<exists>r\<in>set (routes this). conflicts r p ''GET''")
      case True
      then show ?thesis using Bind by (intro exI[of _ 0]) (simp add: get_eq)
    next
      case False
      let ?s1 = "this\<lparr>routes := routes this @ [\<lparr>path = p, method = ''GET'', callback = l\<rparr>]\<rparr>"
      obtain k where k: "k \<le> length xs"
        "snd (run_plan xs ?s1) = ?s1\<lparr>routes := routes ?s1 @ bound (take k xs)\<rparr>"
        using Cons.IH[of ?s1] by blast
      show ?thesis
        using False Bind k by (intro exI[of _ "Suc k"]) (simp add: get_eq)
    qed
  qed
qed

lemma run_plan_success:
  "run_plan steps this = (Inr (), this') \<Longrightarrow>
     this' = this\<lparr>routes := routes this @ bound steps\<rparr> \<and> (\<forall>e. Fail e \<notin> set steps)"
proof (induction steps arbitrary: this)
  case Nil
  then show ?case by simp
next
  case (Cons x xs)
  show ?case
  proof (cases x)
    case (Fail e)
    then show ?thesis using Cons.prems by simp
  next
    case (Bind p l)
    show ?thesis
    proof (cases "\<exists>r\<in>set (routes this). conflicts r p ''GET''")
      case True
      then show ?thesis using Bind Cons.prems by (simp add: get_eq)
    next
      case False
      let ?s1 = "this\<lparr>routes := routes this @ [\<lparr>path = p, method = ''GET'', callback = l\<rparr>]\<rparr>"
      have "run_plan xs ?s1 = (Inr (), this')"
        using False Bind Cons.prems by (simp add: get_eq)
      from Cons.IH[OF this] show ?thesis using Bind by simp
    qed
  qed
qed

section \<open>Properties of the request listener\<close>

lemma for_routes_Cons:
  "for_routes (r # rs) req found w =
     (if matches r req then
        (case callback r req w of
           (Inl e, w') \<Rightarrow> (Inl e, w')
         | (Inr _, w') \<Rightarrow> for_routes rs req True w')
      else for_routes rs req found w)"
  by (auto simp: equals_def matches_def)

lemma for_routes_call_all:
  "for_routes rs req found w =
     bind_io (call_all (filter (\<lambda>r. matches r req) rs) req)
       (\<lambda>_. return_io (found \<or> (\<exists>r\<in>set rs. matches r req))) w"
proof (induction rs arbitrary: found w)
  case Nil
  show ?case by (simp add: bind_io_def return_io_def)
next
  case (Cons r rs)
  show ?case
  proof (cases "matches r req")
    case True
    then show ?thesis
      by (simp add: for_routes_Cons Cons.IH bind_io_def split: prod.splits sum.splits del: for_routes.simps)
  next
    case False
    then show ?thesis
      by (simp add: for_routes_Cons Cons.IH del: for_routes.simps)
  qed
qed

lemma bind_io_assoc: "bind_io (bind_io m f) g = bind_io m (\<lambda>x. bind_io (f x) g)"
  by (rule ext) (simp add: bind_io_def split: prod.splits sum.splits)

lemma bind_io_return: "bind_io (return_io x) f = f x"
  by (rule ext) (simp add: bind_io_def return_io_def)

lemma bind_io_unit_return: "bind_io (m :: unit io) (\<lambda>_. return_io ()) = m"
  by (rule ext) (auto simp: bind_io_def return_io_def split: prod.splits sum.splits)

lemma listen_dispatch:
  "listen this req = bind_io (middleware this req) (\<lambda>_. dispatch_routes (routes this) req)"
proof (rule ext)
  fix w
  show "listen this req w = bind_io (middleware this req) (\<lambda>_. dispatch_routes (routes this) req) w"
  proof (cases "filter (\<lambda>r. matches r req) (routes this)")
    case Nil
    then have none: "\<not> (\<exists>r\<in>set (routes this). matches r req)"
      by (simp add: filter_empty_conv)
    show ?thesis
      using Nil none
      by (simp add: listen_def for_routes_call_all dispatch_routes_def not_found_def
          bind_io_def return_io_def split: prod.splits sum.splits)
  next
    case (Cons m ms)
    then have some: "\<exists>r\<in>set (routes this). matches r req"
      by (metis filter_empty_conv list.distinct(1))
    show ?thesis
      using Cons some
      by (auto simp: listen_def for_routes_call_all dispatch_routes_def
          bind_io_def return_io_def split: prod.splits sum.splits)
  qed
qed

lemma get_conflict_free:
  "conflict_free (routes this) \<Longrightarrow> conflict_free (routes (snd (get p h this)))"
  by (simp add: get_eq conflict_free_append)

lemma walk_conflict_free:
  "conflict_free (routes this) \<Longrightarrow> conflict_free (routes (snd (walk bind node directory route this)))"
  unfolding walk_run_plan
  by (rule run_plan_invariant[where I = "\<lambda>s. conflict_free (routes s)"]) (simp_all add: get_conflict_free)

lemma reachable_conflict_free: "reachable this \<Longrightarrow> conflict_free (routes this)"
proof (induction rule: reachable.induct)
  case new
  show ?case by (simp add: new_ServerShell_def)
next
  case (use this mw)
  then show ?case by (simp add: use_def)
next
  case (register this v p h)
  from register.IH show ?case by (rule register_conflict_free)
next
  case (useStatic this decode node directory route)
  from useStatic.IH show ?case unfolding useStatic_walk by (rule walk_conflict_free)
next
  case (useStatic_dist this decode node directory route)
  from useStatic_dist.IH show ?case unfolding useStatic_dist_walk by (rule walk_conflict_free)
next
  case (useDynamic this decode node directory route)
  from useDynamic.IH show ?case unfolding useDynamic_walk by (rule walk_conflict_free)
qed

lemma matches_conflicts:
  "matches r req \<Longrightarrow> matches x req \<Longrightarrow> conflicts r (path x) (method x)"
  by (auto simp: matches_def conflicts_def)

lemma conflicts_sym: "conflicts r (path x) (method x) \<Longrightarrow> conflicts x (path r) (method r)"
  by (auto simp: conflicts_def)

lemma conflict_free_filter:
  "conflict_free rs \<Longrightarrow> r \<in> set rs \<Longrightarrow> matches r req \<Longrightarrow> filter (\<lambda>x. matches x req) rs = [r]"
proof (induction rs)
  case Nil
  then show ?case by simp
next
  case (Cons a rs)
  show ?case
  proof (cases "matches a req")
    case True
    have none: "\<forall>x\<in>set rs. \<not> matches x req"
      using Cons.prems(1) True matches_conflicts by auto
    then have "r = a" using Cons.prems by auto
    then show ?thesis using True none by (simp add: filter_False del: filter.simps filter_False) (simp add: filter_False)
  next
    case False
    then have "r \<in> set rs" using Cons.prems by auto
    then show ?thesis using False Cons by simp
  qed
qed

lemma conflict_free_nth:
  "conflict_free rs \<Longrightarrow> i < length rs \<Longrightarrow> j < length rs \<Longrightarrow> i \<noteq> j \<Longrightarrow>
     \<not> conflicts (rs ! i) (path (rs ! j)) (method (rs ! j))"
proof (induction rs arbitrary: i j)
  case Nil
  then show ?case by simp
next
  case (Cons a rs)
  show ?case
  proof (cases i)
    case 0
    then obtain j' where j: "j = Suc j'" using Cons.prems(4) by (cases j) auto
    then have "rs ! j' \<in> set rs" using Cons.prems(3) by simp
    then show ?thesis using 0 j Cons.prems(1) by auto
  next
    case (Suc i')
    show ?thesis
    proof (cases j)
      case 0
      have "rs ! i' \<in> set rs" using Suc Cons.prems(2) by simp
      then have "\<not> conflicts a (path (rs ! i')) (method (rs ! i'))" using Cons.prems(1) by auto
      then show ?thesis using 0 Suc conflicts_sym by auto
    next
      case (Suc j')
      then show ?thesis using \<open>i = Suc i'\<close> Cons by auto
    qed
  qed
qed

lemma bind_io_unit_return': "bind_io (m :: unit io) return_io = m"
  by (rule ext) (auto simp: bind_io_def return_io_def split: prod.splits sum.splits)

lemma dispatch_single:
  "filter (\<lambda>x. matches x req) rs = [r] \<Longrightarrow> dispatch_routes rs req = callback r req"
  by (simp add: dispatch_routes_def bind_io_unit_return')

lemma dispatch_none:
  "\<forall>r\<in>set rs. \<not> matches r req \<Longrightarrow> dispatch_routes rs req = not_found req"
  by (simp add: dispatch_routes_def filter_False)

text \<open>
  C2. In a shell built by the public operations, a request with the path and method of a
  registered binding is answered by the middleware followed by the callback of that binding
  and nothing else. A request whose path and method no binding has is answered by the
  callback of the \<open>ANY\<close> binding at that path if there is one, and by the 404 response
  otherwise.
\<close>

theorem reachable_dispatch:
  assumes "reachable this"
  shows "(\<forall>r\<in>set (routes this). \<forall>req. url req = path r \<and> req_method req = method r \<longrightarrow>
            listen this req = bind_io (middleware this req) (\<lambda>_. callback r req)) \<and>
         (\<forall>req. (\<forall>r\<in>set (routes this). \<not> (path r = url req \<and> method r = req_method req)) \<longrightarrow>
            (\<forall>a\<in>set (routes this). path a = url req \<and> method a = ''ANY'' \<longrightarrow>
               listen this req = bind_io (middleware this req) (\<lambda>_. callback a req)) \<and>
            ((\<forall>a\<in>set (routes this). \<not> (path a = url req \<and> method a = ''ANY'')) \<longrightarrow>
               listen this req = bind_io (middleware this req) (\<lambda>_. not_found req)))"
proof -
  have cf: "conflict_free (routes this)" using assms by (rule reachable_conflict_free)
  have one: "listen this req = bind_io (middleware this req) (\<lambda>_. callback r req)"
    if "r \<in> set (routes this)" "matches r req" for r req
    using conflict_free_filter[OF cf that] by (simp add: listen_dispatch dispatch_single)
  have none: "listen this req = bind_io (middleware this req) (\<lambda>_. not_found req)"
    if "\<forall>r\<in>set (routes this). \<not> matches r req" for req
    using that by (simp add: listen_dispatch dispatch_none)
  show ?thesis
  proof (intro conjI ballI allI impI)
    fix r and req :: request assume "r \<in> set (routes this)" "url req = path r \<and> req_method req = method r"
    then show "listen this req = bind_io (middleware this req) (\<lambda>_. callback r req)"
      by (intro one) (simp_all add: matches_def)
  next
    fix req :: request and a assume "a \<in> set (routes this)" "path a = url req \<and> method a = ''ANY''"
    then show "listen this req = bind_io (middleware this req) (\<lambda>_. callback a req)"
      by (intro one) (simp_all add: matches_def)
  next
    fix req :: request
    assume "\<forall>r\<in>set (routes this). \<not> (path r = url req \<and> method r = req_method req)"
       "\<forall>a\<in>set (routes this). \<not> (path a = url req \<and> method a = ''ANY'')"
    then show "listen this req = bind_io (middleware this req) (\<lambda>_. not_found req)"
      by (intro none) (auto simp: matches_def)
  qed
qed

theorem reachable_dispatch_witness:
  "reachable example_shell \<and>
   listen example_shell \<lparr>url = ''/a'', req_method = ''GET''\<rparr> example_world
     = (Inr (), example_world\<lparr>res := [End ''a'']\<rparr>) \<and>
   listen example_shell \<lparr>url = ''/b'', req_method = ''PUT''\<rparr> example_world
     = (Inr (), example_world\<lparr>res := [End ''b'']\<rparr>) \<and>
   listen example_shell \<lparr>url = ''/a'', req_method = ''PUT''\<rparr> example_world
     = (Inr (), example_world\<lparr>res := [WriteHead 404 [(''Content-Type'', Text ''text/html'')],
                                          End ''Cannot get /a'']\<rparr>)"
proof -
  have reach: "reachable example_shell"
    unfolding example_shell_def by (intro reachable.register reachable.new)
  have rs: "routes example_shell =
      [\<lparr>path = ''/a'', method = ''GET'', callback = say ''a''\<rparr>,
       \<lparr>path = ''/b'', method = ''ANY'', callback = say ''b''\<rparr>]"
    and mw: "middleware example_shell = (\<lambda>req. return_io ())"
    by (simp_all add: example_shell_eq)
  show ?thesis
    using reach reachable_dispatch [OF reach]
    by (simp add: rs mw bind_io_def return_io_def say_def res_end_def writeHead_def
        headersSent_def not_found_def example_world_def)
qed

text \<open>
  C3. In a shell built by the public operations, the walks of \<open>useStatic\<close> and \<open>useDynamic\<close>
  included, no two bindings conflict; so at most one binding matches a request, and the
  listener answers with the 404 response or with the callback of exactly one binding.
\<close>

theorem reachable_at_most_one:
  assumes "reachable this"
  shows "(\<forall>i<length (routes this). \<forall>j<length (routes this). i \<noteq> j \<longrightarrow>
            \<not> conflicts (routes this ! i) (path (routes this ! j)) (method (routes this ! j))) \<and>
         (\<forall>req. length (filter (\<lambda>r. matches r req) (routes this)) \<le> 1 \<and>
            (listen this req = bind_io (middleware this req) (\<lambda>_. not_found req) \<or>
             (\<exists>r\<in>set (routes this). matches r req \<and>
                listen this req = bind_io (middleware this req) (\<lambda>_. callback r req))))"
proof -
  have cf: "conflict_free (routes this)" using assms by (rule reachable_conflict_free)
  have idx: "\<forall>i<length (routes this). \<forall>j<length (routes this). i \<noteq> j \<longrightarrow>
            \<not> conflicts (routes this ! i) (path (routes this ! j)) (method (routes this ! j))"
    using conflict_free_nth[OF cf] by blast
  have req: "length (filter (\<lambda>r. matches r req) (routes this)) \<le> 1 \<and>
            (listen this req = bind_io (middleware this req) (\<lambda>_. not_found req) \<or>
             (\<exists>r\<in>set (routes this). matches r req \<and>
                listen this req = bind_io (middleware this req) (\<lambda>_. callback r req)))" for req
  proof (cases "\<exists>r\<in>set (routes this). matches r req")
    case True
    then obtain r where r: "r \<in> set (routes this)" "matches r req" by blast
    have f: "filter (\<lambda>x. matches x req) (routes this) = [r]"
      using conflict_free_filter[OF cf r] .
    show ?thesis using f r by (auto simp: listen_dispatch dispatch_single)
  next
    case False
    then have "filter (\<lambda>x. matches x req) (routes this) = []" by (simp add: filter_False)
    then show ?thesis using False by (simp add: listen_dispatch dispatch_none)
  qed
  show ?thesis using idx req by blast
qed

theorem reachable_at_most_one_witness:
  "reachable example_shell \<and>
   length (filter (\<lambda>r. matches r \<lparr>url = ''/b'', req_method = ''GET''\<rparr>) (routes example_shell)) \<le> 1 \<and>
   \<not> conflicts (routes example_shell ! 0) (path (routes example_shell ! 1))
       (method (routes example_shell ! 1))"
proof -
  have reach: "reachable example_shell"
    unfolding example_shell_def by (intro reachable.register reachable.new)
  have len: "length (routes example_shell) = 2"
    by (simp add: example_shell_eq)
  show ?thesis
    using reach reachable_at_most_one [OF reach] len by simp
qed

text \<open>
  C4 (amended). When no binding matches the request, the listener calls no callback of a
  route: it runs the middleware and then calls \<open>writeHead\<close> with status 404 and the header
  \<open>Content-Type: text/html\<close>. When the middleware has returned and the head of the response
  has not been written, the response is that head followed by \<open>end\<close> with \<open>Cannot get\<close>, a
  space and the url of the request as it came. When the head has been written, \<open>writeHead\<close>
  throws \<open>ERR_HTTP_HEADERS_SENT\<close> and nothing is added to the response; when the middleware
  throws, its exception leaves the listener and nothing else is done.
\<close>

theorem listen_not_found:
  "(\<forall>r\<in>set (routes this). \<not> matches r req) \<Longrightarrow>
     listen this req = bind_io (middleware this req) (\<lambda>_. not_found req) \<and>
     listen this req w =
       (case middleware this req w of
          (Inl e, w1) \<Rightarrow> (Inl e, w1)
        | (Inr u, w1) \<Rightarrow>
            if headersSent w1 then (Inl ERR_HTTP_HEADERS_SENT, w1)
            else (Inr (), w1\<lparr>res := [WriteHead 404 [(''Content-Type'', Text ''text/html'')],
                                      End (''Cannot get '' @ url req)]\<rparr>))"
  by (simp add: listen_dispatch dispatch_routes_def filter_False not_found_def bind_io_def
      writeHead_def res_end_def headersSent_def split: prod.splits sum.splits)

theorem listen_not_found_witness:
  "list_all (\<lambda>r. \<not> matches r \<lparr>url = ''/c?x=1'', req_method = ''GET''\<rparr>) (routes example_shell) \<and>
   listen example_shell \<lparr>url = ''/c?x=1'', req_method = ''GET''\<rparr> example_world
     = (Inr (), example_world\<lparr>res := [WriteHead 404 [(''Content-Type'', Text ''text/html'')],
                                          End ''Cannot get /c?x=1'']\<rparr>)"
proof -
  have rs: "routes example_shell =
      [\<lparr>path = ''/a'', method = ''GET'', callback = say ''a''\<rparr>,
       \<lparr>path = ''/b'', method = ''ANY'', callback = say ''b''\<rparr>]"
    and mw: "middleware example_shell = (\<lambda>req. return_io ())"
    by (simp_all add: example_shell_eq)
  have none: "\<forall>r\<in>set (routes example_shell). \<not> matches r \<lparr>url = ''/c?x=1'', req_method = ''GET''\<rparr>"
    by (simp add: rs matches_def)
  show ?thesis
    using none listen_not_found [OF none, of example_world, THEN conjunct2]
    by (simp add: mw return_io_def headersSent_def example_world_def list_all_iff)
qed

text \<open>
  Without the proviso on the head the statement fails: no binding of the example shell
  matches \<open>GET /c\<close>, and with a middleware that has answered the request the listener
  throws; the response holds what the middleware wrote and no 404.
\<close>

theorem listen_not_found_counterexample:
  "list_all (\<lambda>r. \<not> matches r \<lparr>url = ''/c'', req_method = ''GET''\<rparr>)
     (routes (use refuse example_shell)) \<and>
   listen (use refuse example_shell) \<lparr>url = ''/c'', req_method = ''GET''\<rparr> example_world
     = (Inl ERR_HTTP_HEADERS_SENT, example_world\<lparr>res := [WriteHead 401 [], End ''no'']\<rparr>)"
proof -
  have rs: "routes (use refuse example_shell) =
      [\<lparr>path = ''/a'', method = ''GET'', callback = say ''a''\<rparr>,
       \<lparr>path = ''/b'', method = ''ANY'', callback = say ''b''\<rparr>]"
    and mw: "middleware (use refuse example_shell) = refuse"
    by (simp_all add: example_shell_eq use_def)
  show ?thesis
    by (simp add: listen_def rs mw equals_def matches_def refuse_def bind_io_def writeHead_def
        res_end_def headersSent_def example_world_def)
qed

text \<open>
  C5. The listener calls the middleware first and once: what it does is the middleware
  followed by the dispatch over the routes, which does not involve the middleware; if the
  middleware throws, nothing else happens. \<open>use\<close> overwrites the one middleware field, so
  only the function of the latest call is kept.
\<close>

theorem middleware_first:
  "listen (use mw this) req = bind_io (mw req) (\<lambda>_. dispatch_routes (routes this) req) \<and>
   (\<forall>w e w'. mw req w = (Inl e, w') \<longrightarrow> listen (use mw this) req w = (Inl e, w')) \<and>
   (\<forall>w w'. mw req w = (Inr (), w') \<longrightarrow> listen (use mw this) req w = dispatch_routes (routes this) req w') \<and>
   use mw' (use mw this) = use mw' this \<and>
   middleware (use mw this) = mw \<and> routes (use mw this) = routes this"
  by (simp add: listen_dispatch use_def bind_io_def)

theorem middleware_first_witness:
  "listen (use (note_line ''m'') example_shell) \<lparr>url = ''/a'', req_method = ''GET''\<rparr> example_world
     = (Inr (), example_world\<lparr>console := [''m''], res := [End ''a'']\<rparr>) \<and>
   listen (use (note_line ''m'') example_shell) \<lparr>url = ''/c'', req_method = ''GET''\<rparr> example_world
     = (Inr (), example_world\<lparr>console := [''m''],
                               res := [WriteHead 404 [(''Content-Type'', Text ''text/html'')],
                                       End ''Cannot get /c'']\<rparr>) \<and>
   listen (use (\<lambda>req. throw_io (Thrown ''m'')) example_shell) \<lparr>url = ''/a'', req_method = ''GET''\<rparr> example_world
     = (Inl (Thrown ''m''), example_world) \<and>
   listen (use (note_line ''n'') (use (note_line ''m'') example_shell))
       \<lparr>url = ''/a'', req_method = ''GET''\<rparr> example_world
     = (Inr (), example_world\<lparr>console := [''n''], res := [End ''a'']\<rparr>)"
proof -
  have rs: "routes example_shell =
      [\<lparr>path = ''/a'', method = ''GET'', callback = say ''a''\<rparr>,
       \<lparr>path = ''/b'', method = ''ANY'', callback = say ''b''\<rparr>]"
    by (simp add: example_shell_eq)
  have twice: "use (note_line ''n'') (use (note_line ''m'') example_shell)
                 = use (note_line ''n'') example_shell"
    using middleware_first [of "note_line ''m''" example_shell "\<lparr>url = ''/a'', req_method = ''GET''\<rparr>"
                               "note_line ''n''"]
    by simp
  show ?thesis
    unfolding twice
    using middleware_first [of "note_line ''m''" example_shell "\<lparr>url = ''/a'', req_method = ''GET''\<rparr>"]
          middleware_first [of "note_line ''m''" example_shell "\<lparr>url = ''/c'', req_method = ''GET''\<rparr>"]
          middleware_first [of "\<lambda>req. throw_io (Thrown ''m'')" example_shell
                               "\<lparr>url = ''/a'', req_method = ''GET''\<rparr>"]
          middleware_first [of "note_line ''n''" example_shell "\<lparr>url = ''/a'', req_method = ''GET''\<rparr>"]
    by (simp add: rs dispatch_routes_def matches_def bind_io_def return_io_def throw_io_def
        say_def note_line_def console_log_def res_end_def writeHead_def headersSent_def
        not_found_def example_world_def)
qed

section \<open>Properties of the walk\<close>

lemma binds_Cons:
  "binds bind (join directory entry) (join route entry) st (segs, data) \<Longrightarrow>
     binds bind directory route st (entry # segs, data)"
  by (auto simp: binds_def walked_route_def)

lemma plan_files:
  "(\<forall>e. Fail e \<notin> set (plan bind node directory route)) \<Longrightarrow>
     list_all2 (binds bind directory route) (plan bind node directory route) (files_under node)"
  "(\<forall>e. Fail e \<notin> set (plan_entries bind entries directory route)) \<Longrightarrow>
     list_all2 (binds bind directory route) (plan_entries bind entries directory route) (files_in entries)"
proof (induction bind node directory route and bind entries directory route
       rule: plan_plan_entries.induct)
  case (6 bind entry listing rest directory route)
  have sub: "list_all2 (binds bind (join directory entry) (join route entry))
               (plan bind (Directory listing) (join directory entry) (join route entry))
               (files_under (Directory listing))"
    using 6 by simp
  have "list_all2 (binds bind directory route)
               (plan bind (Directory listing) (join directory entry) (join route entry))
               (map (\<lambda>(segs, data). (entry # segs, data)) (files_under (Directory listing)))"
    unfolding list_all2_map2
    by (rule list_all2_mono[OF sub]) (auto intro: binds_Cons)
  moreover have "list_all2 (binds bind directory route) (plan_entries bind rest directory route) (files_in rest)"
    using 6 by simp
  ultimately show ?case by (simp add: list_all2_appendI)
next
  case (7 bind entry data rest directory route)
  then show ?case
    by (auto simp: Let_def binds_def walked_route_def extension_of_def name_of_def split: sum.splits)
qed simp_all

lemma plan_Bind:
  "Bind p l \<in> set (plan bind node directory route) \<Longrightarrow>
     \<exists>f\<in>set (files_under node). binds bind directory route (Bind p l) f"
  "Bind p l \<in> set (plan_entries bind entries directory route) \<Longrightarrow>
     \<exists>f\<in>set (files_in entries). binds bind directory route (Bind p l) f"
proof (induction bind node directory route and bind entries directory route
       rule: plan_plan_entries.induct)
  case (6 bind entry listing rest directory route)
  from 6(3) consider
      (sub) "Bind p l \<in> set (plan bind (Directory listing) (join directory entry) (join route entry))"
    | (rest) "Bind p l \<in> set (plan_entries bind rest directory route)"
    by auto
  then show ?case
  proof cases
    case sub
    then obtain f where f: "f \<in> set (files_under (Directory listing))"
        "binds bind (join directory entry) (join route entry) (Bind p l) f"
      using 6(1) by blast
    obtain segs data where sd: "f = (segs, data)" by (cases f)
    have "(entry # segs, data) \<in> set (files_in ((entry, Directory listing) # rest))"
      using f(1) sd by force
    moreover have "binds bind directory route (Bind p l) (entry # segs, data)"
      using f(2) sd by (auto intro: binds_Cons)
    ultimately show ?thesis by blast
  next
    case rest
    then show ?thesis using 6(2) by auto
  qed
next
  case (7 bind entry data rest directory route)
  then show ?case
    by (auto simp: Let_def binds_def walked_route_def extension_of_def name_of_def split: sum.splits)
qed simp_all

lemma split_not_Nil [simp]: "split c s \<noteq> []"
  by (induction s) (auto split: list.splits)

lemma split_notin: "c \<notin> set s \<Longrightarrow> split c s = [s]"
  by (induction s) auto

lemma split_append: "split c (a @ c # b) = split c a @ split c b"
  by (induction a) (auto split: list.splits)

lemma split_array_join:
  "ss \<noteq> [] \<Longrightarrow> \<forall>s\<in>set ss. c \<notin> set s \<Longrightarrow> split c (array_join [c] ss) = ss"
proof (induction ss)
  case Nil
  then show ?case by simp
next
  case (Cons x ss)
  show ?case
  proof (cases ss)
    case Nil
    then show ?thesis using Cons.prems by (simp add: split_notin)
  next
    case (Cons y zs)
    have "split c (x @ c # array_join [c] (y # zs)) = split c x @ split c (array_join [c] (y # zs))"
      by (rule split_append)
    then show ?thesis using Cons Cons.IH Cons.prems by (simp add: split_notin)
  qed
qed

lemma array_join_snoc:
  "ss \<noteq> [] \<Longrightarrow> array_join sep (ss @ [e]) = array_join sep ss @ sep @ e"
  by (induction sep ss rule: array_join.induct) auto

lemma array_join_split: "array_join [c] (split c s) = s"
proof (induction s)
  case Nil
  show ?case by simp
next
  case (Cons x s)
  obtain y ys where sp: "split c s = y # ys" using split_not_Nil by (cases "split c s") auto
  show ?case
  proof (cases "x = c")
    case True
    then show ?thesis using Cons sp by simp
  next
    case False
    then show ?thesis using Cons sp by (cases ys) auto
  qed
qed

lemma split_no_sep: "x \<in> set (split c s) \<Longrightarrow> c \<notin> set x"
proof (induction s arbitrary: x)
  case Nil
  then show ?case by simp
next
  case (Cons a s)
  obtain y ys where sp: "split c s = y # ys" using split_not_Nil by (cases "split c s") auto
  show ?case using Cons sp by (auto split: if_splits)
qed

lemma array_join_contains_sep: "length ss \<ge> 2 \<Longrightarrow> c \<in> set (array_join [c] ss)"
  by (induction "[c]" ss rule: array_join.induct) auto

lemma index_html_iff:
  "name_of entry = ''index'' \<and> extension_of entry = ''html'' \<longleftrightarrow> entry = ''index.html''"
proof
  assume "entry = ''index.html''"
  then show "name_of entry = ''index'' \<and> extension_of entry = ''html''"
    by (simp add: name_of_def extension_of_def)
next
  assume a: "name_of entry = ''index'' \<and> extension_of entry = ''html''"
  let ?xs = "split CHR ''.'' entry"
  have xs: "?xs = butlast ?xs @ [last ?xs]" by simp
  have nodot: "\<forall>x\<in>set (butlast ?xs). CHR ''.'' \<notin> set x"
    using split_no_sep in_set_butlastD by metis
  have j: "array_join ''.'' (butlast ?xs) = ''index''" using a by (simp add: name_of_def)
  have "length (butlast ?xs) < 2"
  proof (rule ccontr)
    assume "\<not> length (butlast ?xs) < 2"
    then have "CHR ''.'' \<in> set (array_join ''.'' (butlast ?xs))"
      by (intro array_join_contains_sep) simp
    then show False using j by simp
  qed
  moreover have "butlast ?xs \<noteq> []" using j by auto
  ultimately obtain x where x: "butlast ?xs = [x]"
    by (cases "butlast ?xs") (auto simp: Suc_lessI)
  then have "x = ''index''" using j by simp
  then have "?xs = [''index'', ''html'']" using xs x a by (simp add: extension_of_def)
  then have "array_join ''.'' ?xs = ''index.html''" by simp
  then show "entry = ''index.html''" by (simp add: array_join_split)
qed

lemma foldl_valid:
  "\<forall>s\<in>set ss. valid_name s \<Longrightarrow> foldl (normalize_segment False) st ss = rev ss @ st"
  by (induction ss arbitrary: st) (auto simp: normalize_segment_def valid_name_def)

lemma split_slash_Cons: "split CHR ''/'' (CHR ''/'' # s) = [] # split CHR ''/'' s"
  by simp

lemma stack_abs_path:
  assumes "\<forall>s\<in>set ss. valid_name s" "CHR ''/'' \<notin> set e"
  shows "foldl (normalize_segment False) [] (split CHR ''/'' (abs_path ss @ CHR ''/'' # e))
           = normalize_segment False (rev ss) e"
proof -
  have "split CHR ''/'' (array_join ''/'' ss @ CHR ''/'' # e)
          = split CHR ''/'' (array_join ''/'' ss) @ [e]"
    using assms(2) by (simp add: split_append split_notin)
  then have sp: "split CHR ''/'' (abs_path ss @ CHR ''/'' # e)
              = [] # split CHR ''/'' (array_join ''/'' ss) @ [e]"
    by (simp add: abs_path_def)
  have skip: "normalize_segment False [] [] = []"
    by (simp add: normalize_segment_def)
  show ?thesis
  proof (cases "ss = []")
    case True
    then show ?thesis unfolding sp by (simp add: skip)
  next
    case False
    have "split CHR ''/'' (array_join ''/'' ss) = ss"
      using False assms(1) by (intro split_array_join) (auto simp: valid_name_def)
    then show ?thesis unfolding sp using assms(1) by (simp add: foldl_valid skip)
  qed
qed

lemma array_join_Nil_iff:
  "\<forall>s\<in>set ss. s \<noteq> [] \<Longrightarrow> array_join sep ss = [] \<longleftrightarrow> ss = []"
  by (induction sep ss rule: array_join.induct) auto

lemma abs_path_not_Nil [simp]: "abs_path ss \<noteq> []"
  by (simp add: abs_path_def)

lemma hd_abs_path [simp]: "hd (abs_path ss @ t) = CHR ''/''"
  by (simp add: abs_path_def)

lemma join_abs_path:
  assumes "\<forall>s\<in>set ss. valid_name s" "valid_name e"
  shows "join (abs_path ss) e = abs_path (ss @ [e])"
proof -
  have e: "e \<noteq> []" "CHR ''/'' \<notin> set e"
    using assms(2) by (auto simp: valid_name_def)
  have "last e \<in> set e" using e(1) by (rule last_in_set)
  then have le: "last e \<noteq> CHR ''/''" using e(2) by auto
  have st: "foldl (normalize_segment False) [] (split CHR ''/'' (abs_path ss @ CHR ''/'' # e)) = e # rev ss"
    using stack_abs_path[OF assms(1) e(2)] assms(2) by (simp add: normalize_segment_def valid_name_def)
  have q: "normalizeString (abs_path ss @ CHR ''/'' # e) False = array_join ''/'' (ss @ [e])"
    by (simp add: normalizeString_def st)
  have ne: "array_join ''/'' (ss @ [e]) \<noteq> []"
    using assms by (subst array_join_Nil_iff) (auto simp: valid_name_def)
  have "normalize (abs_path ss @ CHR ''/'' # e) = ''/'' @ array_join ''/'' (ss @ [e])"
    using e le ne by (simp add: normalize_def q Let_def)
  then show ?thesis using e by (simp add: join_def abs_path_def)
qed

lemma join_abs_path_up:
  assumes "\<forall>s\<in>set ss. valid_name s"
  shows "join (abs_path ss) ''..'' = abs_path (butlast ss)"
proof -
  have pop: "normalize_segment False (rev ss) ''..'' = rev (butlast ss)"
  proof (cases ss rule: rev_cases)
    case Nil
    then show ?thesis by (simp add: normalize_segment_def)
  next
    case (snoc ys y)
    then have "y \<noteq> ''..''" using assms by (auto simp: valid_name_def)
    then show ?thesis using snoc by (simp add: normalize_segment_def)
  qed
  have st: "foldl (normalize_segment False) [] (split CHR ''/'' (abs_path ss @ CHR ''/'' # ''..'')) = rev (butlast ss)"
    using stack_abs_path[OF assms, of "''..''"] pop by simp
  have q: "normalizeString (abs_path ss @ CHR ''/'' # ''..'') False = array_join ''/'' (butlast ss)"
    unfolding normalizeString_def st by simp
  have "normalize (abs_path ss @ CHR ''/'' # ''..'') = ''/'' @ array_join ''/'' (butlast ss)"
    using q by (simp add: normalize_def Let_def)
  then show ?thesis by (simp add: join_def abs_path_def)
qed

lemma foldl_join_abs_path:
  "\<forall>s\<in>set ps. valid_name s \<Longrightarrow> \<forall>s\<in>set segs. valid_name s \<Longrightarrow>
     foldl join (abs_path ps) segs = abs_path (ps @ segs)"
proof (induction segs arbitrary: ps)
  case Nil
  show ?case by simp
next
  case (Cons e segs)
  have "foldl join (abs_path (ps @ [e])) segs = abs_path ((ps @ [e]) @ segs)"
    using Cons.prems by (intro Cons.IH) auto
  then show ?case using Cons.prems by (simp add: join_abs_path)
qed

lemma walked_route_spec:
  assumes "\<forall>s\<in>set ps. valid_name s" "\<forall>s\<in>set segs. valid_name s" "segs \<noteq> []"
  shows "walked_route (abs_path ps) segs = spec_route ps segs"
proof -
  have all: "\<forall>s\<in>set (ps @ segs). valid_name s" using assms by auto
  have bl: "butlast (ps @ segs) = ps @ butlast segs" using assms(3) by (simp add: butlast_append)
  show ?thesis
    using join_abs_path_up[OF all] bl
    by (simp add: walked_route_def spec_route_def index_html_iff foldl_join_abs_path[OF assms(1,2)])
qed

lemma files_valid:
  "valid_tree node \<Longrightarrow> \<forall>f\<in>set (files_under node). \<forall>s\<in>set (fst f). valid_name s"
  "valid_entries entries \<Longrightarrow> \<forall>f\<in>set (files_in entries). \<forall>s\<in>set (fst f). valid_name s"
  by (induction node and entries rule: files_under_files_in.induct) auto

lemma MIMEFromExt_table:
  "MIMEFromExt extension w =
     (case map_of mime_table extension of
        Some mime \<Rightarrow> (Inr mime, w)
      | None \<Rightarrow> (Inr ''text/plain'', w\<lparr>console := console w @ [unknown_extension_line extension]\<rparr>))"
  by (simp add: MIMEFromExt_def mime_table_def return_io_def bind_io_def console_log_def)

lemma MIMEFromExt_run:
  "MIMEFromExt extension w = (Inr (mime_of extension), w\<lparr>console := console w @ mime_log extension\<rparr>)"
  by (simp add: MIMEFromExt_table mime_of_def mime_log_def split: option.splits)

lemma static_listener_run:
  "static_listener extension contents req w =
     (if headersSent w
      then (Inl ERR_HTTP_HEADERS_SENT, w\<lparr>console := console w @ mime_log extension\<rparr>)
      else (Inr (), w\<lparr>console := console w @ mime_log extension,
                      res := [WriteHead 200 [(''Content-Type'', Text (mime_of extension))],
                              End contents]\<rparr>))"
  by (simp add: static_listener_def bind_io_def MIMEFromExt_run writeHead_def res_end_def
      headersSent_def)

lemma static_listener_dist_run:
  "static_listener_dist extension contents req w =
     (if headersSent w
      then (Inl ERR_HTTP_HEADERS_SENT, w\<lparr>console := console w @ mime_log extension\<rparr>)
      else (Inr (), w\<lparr>console := console w @ mime_log extension,
                      res := [WriteHead 200 [(''Content-Type'', Text (mime_of extension)),
                                             (''Content-Length'', Number (byteLength contents))],
                              End contents]\<rparr>))"
  by (simp add: static_listener_dist_def bind_io_def MIMEFromExt_run writeHead_def res_end_def
      headersSent_def)

lemma dynamic_listener_run:
  "dynamic_listener decode pathnameDir extension req w =
     (case files w pathnameDir of
        None \<Rightarrow> (Inl (FilesystemError pathnameDir), w)
      | Some b \<Rightarrow>
          if headersSent w
          then (Inl ERR_HTTP_HEADERS_SENT, w\<lparr>console := console w @ mime_log extension\<rparr>)
          else (Inr (), w\<lparr>console := console w @ mime_log extension,
                          res := [WriteHead 200 [(''Content-Type'', Text (mime_of extension)),
                                                 (''Content-Length'', Number (byteLength (decode b)))],
                                  End (decode b)]\<rparr>))"
  by (simp add: dynamic_listener_def bind_io_def MIMEFromExt_run writeHead_def res_end_def
      headersSent_def readFileSync_def Let_def split: option.splits)

lemma bound_set:
  "x \<in> set (bound steps) \<Longrightarrow> method x = ''GET'' \<and> Bind (path x) (callback x) \<in> set steps"
  by (induction steps rule: bound.induct) auto

lemma bound_list_all2:
  "\<forall>e. Fail e \<notin> set steps \<Longrightarrow>
     list_all2 (\<lambda>x st. method x = ''GET'' \<and> st = Bind (path x) (callback x)) (bound steps) steps"
  by (induction steps rule: bound.induct) auto

lemma walk_new:
  "\<exists>new. snd (walk bind node directory route this) = this\<lparr>routes := routes this @ new\<rparr> \<and>
     (\<forall>x\<in>set new. method x = ''GET'' \<and>
        (\<exists>f\<in>set (files_under node). binds bind directory route (Bind (path x) (callback x)) f))"
proof -
  let ?steps = "plan bind node directory route"
  obtain k where k: "snd (run_plan ?steps this) = this\<lparr>routes := routes this @ bound (take k ?steps)\<rparr>"
    using run_plan_routes by blast
  have "method x = ''GET'' \<and> (\<exists>f\<in>set (files_under node). binds bind directory route (Bind (path x) (callback x)) f)"
    if "x \<in> set (bound (take k ?steps))" for x
  proof -
    have "method x = ''GET''" "Bind (path x) (callback x) \<in> set (take k ?steps)"
      using bound_set[OF that] by simp_all
    then have "Bind (path x) (callback x) \<in> set ?steps" by (meson in_set_takeD)
    then show ?thesis using plan_Bind(1) \<open>method x = ''GET''\<close> by blast
  qed
  then show ?thesis using k by (auto simp: walk_run_plan)
qed

lemma walk_success:
  assumes "walk bind node directory route this = (Inr (), this')"
  shows "\<exists>new. this' = this\<lparr>routes := routes this @ new\<rparr> \<and>
     list_all2 (\<lambda>x f. method x = ''GET'' \<and> binds bind directory route (Bind (path x) (callback x)) f)
       new (files_under node)"
proof -
  let ?steps = "plan bind node directory route"
  have run: "run_plan ?steps this = (Inr (), this')" using assms by (simp add: walk_run_plan)
  have s': "this' = this\<lparr>routes := routes this @ bound ?steps\<rparr>" and nf: "\<forall>e. Fail e \<notin> set ?steps"
    using run_plan_success[OF run] by simp_all
  have a: "list_all2 (\<lambda>x st. method x = ''GET'' \<and> st = Bind (path x) (callback x)) (bound ?steps) ?steps"
    using nf by (rule bound_list_all2)
  have b: "list_all2 (binds bind directory route) ?steps (files_under node)"
    using nf by (rule plan_files(1))
  have "list_all2 (\<lambda>x f. method x = ''GET'' \<and> binds bind directory route (Bind (path x) (callback x)) f)
       (bound ?steps) (files_under node)"
    using a b by (auto simp: list_all2_conv_all_nth)
  then show ?thesis using s' by blast
qed

lemma join_eval:
  "join ''/assets'' ''a.txt'' = ''/assets/a.txt''"
  "join ''/assets'' ''sub'' = ''/assets/sub''"
  "join ''/assets/sub'' ''b.png'' = ''/assets/sub/b.png''"
  "join ''/assets/sub'' ''index.html'' = ''/assets/sub/index.html''"
  "join ''/assets/sub/index.html'' ''..'' = ''/assets/sub''"
  by (simp_all add: join_def normalize_def normalizeString_def normalize_segment_def)

lemma join_eval2:
  "join ''/root'' ''a.txt'' = ''/root/a.txt''"
  "join ''/assets'' ''Makefile'' = ''/assets/Makefile''"
  "join ''/root'' ''Makefile'' = ''/root/Makefile''"
  "join ''/assets'' ''a'' = ''/assets/a''"
  "join ''/assets/a'' ''b.txt'' = ''/assets/a/b.txt''"
  "join ''/assets'' [CHR ''a'', CHR 0x5C, CHR ''b'', CHR ''.'', CHR ''t'', CHR ''x'', CHR ''t'']
     = [CHR ''/'', CHR ''a'', CHR ''s'', CHR ''s'', CHR ''e'', CHR ''t'', CHR ''s'', CHR ''/'',
        CHR ''a'', CHR 0x5C, CHR ''b'', CHR ''.'', CHR ''t'', CHR ''x'', CHR ''t'']"
  by (simp_all add: join_def normalize_def normalizeString_def normalize_segment_def)

lemma files_nonempty:
  "\<forall>f\<in>set (files_under node). fst f \<noteq> []"
  "\<forall>f\<in>set (files_in entries). fst f \<noteq> []"
  by (induction node and entries rule: files_under_files_in.induct) auto

lemma example_routes:
  "fst (useStatic decode example_tree directory ''/assets'' new_ServerShell) = Inr () \<and>
   map (\<lambda>x. (path x, method x)) (routes (snd (useStatic decode example_tree directory ''/assets'' new_ServerShell)))
     = [(''/assets/a.txt'', ''GET''), (''/assets/sub/b.png'', ''GET''), (''/assets/sub'', ''GET'')]"
  by (simp add: example_tree_def new_ServerShell_def join_eval get_eq conflicts_def
      replaceAll_backslash_def backslash_def Let_def)

section \<open>Listeners of the served files\<close>

text \<open>
  C9. \<open>MIMEFromExt\<close> depends on the extension alone and compares it exactly: an extension of
  the table gives its type and logs nothing (\<open>png\<close> gives \<open>image/png\<close>); any other string, such
  as \<open>unknownext\<close> or \<open>PNG\<close>, gives \<open>text/plain\<close> and logs one line, which contains the
  extension after a dot.
\<close>

theorem MIMEFromExt_resolves:
  "MIMEFromExt extension w =
     (case map_of mime_table extension of
        Some mime \<Rightarrow> (Inr mime, w)
      | None \<Rightarrow> (Inr ''text/plain'', w\<lparr>console := console w @ [unknown_extension_line extension]\<rparr>)) \<and>
   MIMEFromExt ''png'' w = (Inr ''image/png'', w) \<and>
   MIMEFromExt ''unknownext'' w
     = (Inr ''text/plain'', w\<lparr>console := console w @ [unknown_extension_line ''unknownext'']\<rparr>) \<and>
   MIMEFromExt ''PNG'' w
     = (Inr ''text/plain'', w\<lparr>console := console w @ [unknown_extension_line ''PNG'']\<rparr>) \<and>
   (\<exists>before after. unknown_extension_line extension = before @ ''.'' @ extension @ after)"
proof -
  have "\<exists>before after. unknown_extension_line extension = before @ ''.'' @ extension @ after"
    unfolding unknown_extension_line_def
    by (rule exI[of _ "''Encountered unknown extension while generating static routes: ''"],
        rule exI[of _ "'' - If you want this fixed as quickly as possible, open an issue at https://github.com/SaphirDeFeu/TSMServerShell-Node/issues''"])
       simp
  moreover have "MIMEFromExt ''png'' w = (Inr ''image/png'', w)"
    by (simp add: MIMEFromExt_table mime_table_def)
  moreover have "MIMEFromExt ''unknownext'' w
     = (Inr ''text/plain'', w\<lparr>console := console w @ [unknown_extension_line ''unknownext'']\<rparr>)"
    by (simp add: MIMEFromExt_table mime_table_def)
  moreover have "MIMEFromExt ''PNG'' w
     = (Inr ''text/plain'', w\<lparr>console := console w @ [unknown_extension_line ''PNG'']\<rparr>)"
    by (simp add: MIMEFromExt_table mime_table_def)
  ultimately show ?thesis using MIMEFromExt_table by simp
qed

lemma decode_ascii_eval:
  "decode_ascii [104, 105] = ''hi''"
  "decode_ascii [104, 111] = ''ho''"
  by code_simp+

text \<open>
  C7. For a directory holding \<open>a.txt\<close> with the two bytes of \<open>hi\<close>, the listener that
  \<open>useStatic\<close> of the TypeScript source binds answers with status 200 and the header
  \<open>Content-Type\<close> only: it sets no \<open>Content-Length\<close>. The listeners that \<open>useStatic\<close> and
  \<open>useDynamic\<close> of the build bind set \<open>Content-Length\<close> to the byte length of the body they
  write.
\<close>

theorem useStatic_content_length:
  "map (\<lambda>x. res (snd (callback x \<lparr>url = ''/assets/a.txt'', req_method = ''GET''\<rparr> example_world)))
       (routes (snd (useStatic decode_ascii one_file_tree ''/root'' ''/assets'' new_ServerShell)))
     = [[WriteHead 200 [(''Content-Type'', Text ''text/plain'')], End ''hi'']] \<and>
   map (\<lambda>x. res (snd (callback x \<lparr>url = ''/assets/a.txt'', req_method = ''GET''\<rparr> example_world)))
       (routes (snd (useStatic_dist decode_ascii one_file_tree ''/root'' ''/assets'' new_ServerShell)))
     = [[WriteHead 200 [(''Content-Type'', Text ''text/plain''), (''Content-Length'', Number 2)],
         End ''hi'']] \<and>
   map (\<lambda>x. res (snd (callback x \<lparr>url = ''/assets/a.txt'', req_method = ''GET''\<rparr> edited_world)))
       (routes (snd (useDynamic decode_ascii one_file_tree ''/root'' ''/assets'' new_ServerShell)))
     = [[WriteHead 200 [(''Content-Type'', Text ''text/plain''), (''Content-Length'', Number 2)],
         End ''ho'']]"
  by (simp add: one_file_tree_def new_ServerShell_def join_eval join_eval2
      get_eq conflicts_def replaceAll_backslash_def backslash_def Let_def
      static_listener_run static_listener_dist_run dynamic_listener_run
      mime_of_def mime_log_def mime_table_def byteLength_def headersSent_def
      decode_ascii_eval example_world_def edited_world_def)

lemma split_no_dot: "CHR ''.'' \<notin> set entry \<Longrightarrow> extension_of entry = entry \<and> name_of entry = []"
  by (simp add: extension_of_def name_of_def split_notin)

lemma walked_route_no_dot:
  "CHR ''.'' \<notin> set (last segs) \<Longrightarrow> walked_route route segs = replaceAll_backslash (foldl join route segs)"
  by (simp add: walked_route_def split_no_dot)

lemma binds_listener:
  assumes "binds bind directory route (Bind p l) f"
  shows "p = walked_route route (fst f) \<and>
         bind (foldl join directory (fst f)) (snd f) (extension_of (last (fst f))) = Inr l"
  using assms by (cases f) (simp add: binds_def)

lemma walk_new_listeners:
  assumes Q: "\<And>p data e l. bind p data e = Inr l \<Longrightarrow> Q p data e l"
  shows "\<exists>new. snd (walk bind node directory route this) = this\<lparr>routes := routes this @ new\<rparr> \<and>
     (\<forall>x\<in>set new. method x = ''GET'' \<and>
        (\<exists>f\<in>set (files_under node). path x = walked_route route (fst f) \<and>
           Q (foldl join directory (fst f)) (snd f) (extension_of (last (fst f))) (callback x)))"
proof -
  from walk_new[of bind node directory route this]
  obtain new where new:
    "snd (walk bind node directory route this) = this\<lparr>routes := routes this @ new\<rparr>"
    "\<forall>x\<in>set new. method x = ''GET'' \<and>
        (\<exists>f\<in>set (files_under node). binds bind directory route (Bind (path x) (callback x)) f)"
    by (elim exE conjE)
  have "\<forall>x\<in>set new. method x = ''GET'' \<and>
        (\<exists>f\<in>set (files_under node). path x = walked_route route (fst f) \<and>
           Q (foldl join directory (fst f)) (snd f) (extension_of (last (fst f))) (callback x))"
  proof
    fix x assume x: "x \<in> set new"
    from bspec[OF new(2) x]
    obtain f where f: "method x = ''GET''" "f \<in> set (files_under node)"
        "binds bind directory route (Bind (path x) (callback x)) f"
      by (elim bexE conjE)
    from binds_listener[OF f(3)]
    have pf: "path x = walked_route route (fst f)"
      and bf: "bind (foldl join directory (fst f)) (snd f) (extension_of (last (fst f))) = Inr (callback x)"
      by simp_all
    show "method x = ''GET'' \<and>
        (\<exists>f\<in>set (files_under node). path x = walked_route route (fst f) \<and>
           Q (foldl join directory (fst f)) (snd f) (extension_of (last (fst f))) (callback x))"
      using f(1) by (intro conjI bexI[of _ f]) (simp_all add: pf Q[OF bf] f(2))
  qed
  then show ?thesis using new(1) by (intro exI[of _ new] conjI)
qed

lemma static_bind_listener:
  assumes "static_bind decode p data e = Inr l"
  shows "\<exists>b. data = Some b \<and>
           (\<forall>req w. l req w =
              (if headersSent w
               then (Inl ERR_HTTP_HEADERS_SENT, w\<lparr>console := console w @ mime_log e\<rparr>)
               else (Inr (), w\<lparr>console := console w @ mime_log e,
                       res := [WriteHead 200 [(''Content-Type'', Text (mime_of e))],
                               End (decode b)]\<rparr>)))"
proof (cases data)
  case None
  then show ?thesis using assms by (simp add: static_bind_simps)
next
  case (Some b)
  then have "l = static_listener e (decode b)" using assms by (simp add: static_bind_simps)
  then show ?thesis using Some by (intro exI[of _ b]) (simp add: static_listener_run)
qed

lemma static_bind_dist_listener:
  assumes "static_bind_dist decode p data e = Inr l"
  shows "\<exists>b. data = Some b \<and>
           (\<forall>req w. l req w =
              (if headersSent w
               then (Inl ERR_HTTP_HEADERS_SENT, w\<lparr>console := console w @ mime_log e\<rparr>)
               else (Inr (), w\<lparr>console := console w @ mime_log e,
                       res := [WriteHead 200 [(''Content-Type'', Text (mime_of e)),
                                       (''Content-Length'', Number (byteLength (decode b)))],
                               End (decode b)]\<rparr>)))"
proof (cases data)
  case None
  then show ?thesis using assms by (simp add: static_bind_dist_simps)
next
  case (Some b)
  then have "l = static_listener_dist e (decode b)" using assms by (simp add: static_bind_dist_simps)
  then show ?thesis using Some by (intro exI[of _ b]) (simp add: static_listener_dist_run)
qed

lemma dynamic_bind_listener:
  assumes "dynamic_bind decode p data e = Inr l"
  shows "\<forall>req w. l req w =
           (case files w (p) of
              None \<Rightarrow> (Inl (FilesystemError (p)), w)
            | Some b \<Rightarrow>
                (if headersSent w
                 then (Inl ERR_HTTP_HEADERS_SENT, w\<lparr>console := console w @ mime_log e\<rparr>)
                 else (Inr (), w\<lparr>console := console w @ mime_log e,
                         res := [WriteHead 200 [(''Content-Type'', Text (mime_of e)),
                                         (''Content-Length'', Number (byteLength (decode b)))],
                                 End (decode b)]\<rparr>)))"
proof -
  have "l = dynamic_listener decode p e" using assms by (simp add: dynamic_bind_def)
  then show ?thesis by (simp add: dynamic_listener_run)
qed

text \<open>
  C8 (amended). Every route that \<open>useStatic\<close> appends belongs to a regular file of the tree.
  Called in a world where the head of the response has not been written, whatever the files
  hold by then, its listener ends the response with the decoded bytes the tree held for the
  file during the walk. Every route that \<open>useDynamic\<close> appends belongs to a regular file, and
  its listener reads the path of that file in the world of the request: it throws if the
  file cannot be read and otherwise, the head not being written, ends the response with the
  decoded bytes found there. Called when the head has been written, each of these listeners
  throws \<open>ERR_HTTP_HEADERS_SENT\<close> from \<open>writeHead\<close> and adds nothing to the response.
\<close>

theorem eager_and_lazy:
  "(\<exists>new. snd (useStatic decode tree directory route this) = this\<lparr>routes := routes this @ new\<rparr> \<and>
      (\<forall>x\<in>set new. method x = ''GET'' \<and>
         (\<exists>f\<in>set (files_under tree). path x = walked_route route (fst f) \<and>
            (\<exists>b. snd f = Some b \<and>
               (\<forall>req w. callback x req w =
                  (if headersSent w
                   then (Inl ERR_HTTP_HEADERS_SENT, w\<lparr>console := console w @ mime_log (extension_of (last (fst f)))\<rparr>)
                   else (Inr (), w\<lparr>console := console w @ mime_log (extension_of (last (fst f))),
                           res := [WriteHead 200 [(''Content-Type'', Text (mime_of (extension_of (last (fst f)))))],
                                   End (decode b)]\<rparr>))))))) \<and>
   (\<exists>new. snd (useStatic_dist decode tree directory route this) = this\<lparr>routes := routes this @ new\<rparr> \<and>
      (\<forall>x\<in>set new. method x = ''GET'' \<and>
         (\<exists>f\<in>set (files_under tree). path x = walked_route route (fst f) \<and>
            (\<exists>b. snd f = Some b \<and>
               (\<forall>req w. callback x req w =
                  (if headersSent w
                   then (Inl ERR_HTTP_HEADERS_SENT, w\<lparr>console := console w @ mime_log (extension_of (last (fst f)))\<rparr>)
                   else (Inr (), w\<lparr>console := console w @ mime_log (extension_of (last (fst f))),
                           res := [WriteHead 200 [(''Content-Type'', Text (mime_of (extension_of (last (fst f))))),
                                           (''Content-Length'', Number (byteLength (decode b)))],
                                   End (decode b)]\<rparr>))))))) \<and>
   (\<exists>new. snd (useDynamic decode tree directory route this) = this\<lparr>routes := routes this @ new\<rparr> \<and>
      (\<forall>x\<in>set new. method x = ''GET'' \<and>
         (\<exists>f\<in>set (files_under tree). path x = walked_route route (fst f) \<and>
            (\<forall>req w. callback x req w =
               (case files w (foldl join directory (fst f)) of
                  None \<Rightarrow> (Inl (FilesystemError (foldl join directory (fst f))), w)
                | Some b \<Rightarrow>
                    (if headersSent w
                     then (Inl ERR_HTTP_HEADERS_SENT, w\<lparr>console := console w @ mime_log (extension_of (last (fst f)))\<rparr>)
                     else (Inr (), w\<lparr>console := console w @ mime_log (extension_of (last (fst f))),
                             res := [WriteHead 200 [(''Content-Type'', Text (mime_of (extension_of (last (fst f))))),
                                             (''Content-Length'', Number (byteLength (decode b)))],
                                     End (decode b)]\<rparr>)))))))"
proof (intro conjI)
  show "\<exists>new. snd (useStatic decode tree directory route this) = this\<lparr>routes := routes this @ new\<rparr> \<and>
      (\<forall>x\<in>set new. method x = ''GET'' \<and>
         (\<exists>f\<in>set (files_under tree). path x = walked_route route (fst f) \<and>
            (\<exists>b. snd f = Some b \<and>
               (\<forall>req w. callback x req w =
                  (if headersSent w
                   then (Inl ERR_HTTP_HEADERS_SENT, w\<lparr>console := console w @ mime_log (extension_of (last (fst f)))\<rparr>)
                   else (Inr (), w\<lparr>console := console w @ mime_log (extension_of (last (fst f))),
                           res := [WriteHead 200 [(''Content-Type'', Text (mime_of (extension_of (last (fst f)))))],
                                   End (decode b)]\<rparr>))))))"
    unfolding useStatic_walk
    by (rule walk_new_listeners) (rule static_bind_listener)
next
  show "\<exists>new. snd (useStatic_dist decode tree directory route this) = this\<lparr>routes := routes this @ new\<rparr> \<and>
      (\<forall>x\<in>set new. method x = ''GET'' \<and>
         (\<exists>f\<in>set (files_under tree). path x = walked_route route (fst f) \<and>
            (\<exists>b. snd f = Some b \<and>
               (\<forall>req w. callback x req w =
                  (if headersSent w
                   then (Inl ERR_HTTP_HEADERS_SENT, w\<lparr>console := console w @ mime_log (extension_of (last (fst f)))\<rparr>)
                   else (Inr (), w\<lparr>console := console w @ mime_log (extension_of (last (fst f))),
                           res := [WriteHead 200 [(''Content-Type'', Text (mime_of (extension_of (last (fst f))))),
                                           (''Content-Length'', Number (byteLength (decode b)))],
                                   End (decode b)]\<rparr>))))))"
    unfolding useStatic_dist_walk
    by (rule walk_new_listeners) (rule static_bind_dist_listener)
next
  show "\<exists>new. snd (useDynamic decode tree directory route this) = this\<lparr>routes := routes this @ new\<rparr> \<and>
      (\<forall>x\<in>set new. method x = ''GET'' \<and>
         (\<exists>f\<in>set (files_under tree). path x = walked_route route (fst f) \<and>
            (\<forall>req w. callback x req w =
               (case files w (foldl join directory (fst f)) of
                  None \<Rightarrow> (Inl (FilesystemError (foldl join directory (fst f))), w)
                | Some b \<Rightarrow>
                    (if headersSent w
                     then (Inl ERR_HTTP_HEADERS_SENT, w\<lparr>console := console w @ mime_log (extension_of (last (fst f)))\<rparr>)
                     else (Inr (), w\<lparr>console := console w @ mime_log (extension_of (last (fst f))),
                             res := [WriteHead 200 [(''Content-Type'', Text (mime_of (extension_of (last (fst f))))),
                                             (''Content-Length'', Number (byteLength (decode b)))],
                                     End (decode b)]\<rparr>))))))"
    unfolding useDynamic_walk
    by (rule walk_new_listeners) (rule dynamic_bind_listener)
qed

lemma files_under_one_file: "files_under one_file_tree = [([''a.txt''], Some [104, 105])]"
  by (simp add: one_file_tree_def)

lemma one_file_routes:
  "length (routes (snd (useStatic decode_ascii one_file_tree ''/root'' ''/assets'' new_ServerShell))) = 1"
  "length (routes (snd (useDynamic decode_ascii one_file_tree ''/root'' ''/assets'' new_ServerShell))) = 1"
  by (simp_all add: one_file_tree_def new_ServerShell_def get_eq Let_def)

theorem eager_and_lazy_witness:
  "length (routes (snd (useStatic decode_ascii one_file_tree ''/root'' ''/assets'' new_ServerShell))) = 1 \<and>
   list_all (\<lambda>x. res (snd (callback x \<lparr>url = ''/assets/a.txt'', req_method = ''GET''\<rparr> edited_world))
                   = [WriteHead 200 [(''Content-Type'', Text ''text/plain'')], End ''hi''])
     (routes (snd (useStatic decode_ascii one_file_tree ''/root'' ''/assets'' new_ServerShell))) \<and>
   length (routes (snd (useDynamic decode_ascii one_file_tree ''/root'' ''/assets'' new_ServerShell))) = 1 \<and>
   list_all (\<lambda>x. res (snd (callback x \<lparr>url = ''/assets/a.txt'', req_method = ''GET''\<rparr> edited_world))
                   = [WriteHead 200 [(''Content-Type'', Text ''text/plain''), (''Content-Length'', Number 2)],
                      End ''ho''])
     (routes (snd (useDynamic decode_ascii one_file_tree ''/root'' ''/assets'' new_ServerShell)))"
proof -
  let ?req = "\<lparr>url = ''/assets/a.txt'', req_method = ''GET''\<rparr>"
  note inst = eager_and_lazy[of decode_ascii one_file_tree "''/root''" "''/assets''" new_ServerShell]
  have plain: "mime_of (extension_of ''a.txt'') = ''text/plain''" "mime_log (extension_of ''a.txt'') = []"
    by (simp_all add: mime_of_def mime_log_def extension_of_def mime_table_def)
  have fresh: "\<not> headersSent edited_world" by (simp add: headersSent_def edited_world_def)
  from inst[THEN conjunct1]
  obtain new where new:
    "snd (useStatic decode_ascii one_file_tree ''/root'' ''/assets'' new_ServerShell)
       = new_ServerShell\<lparr>routes := routes new_ServerShell @ new\<rparr>"
    "\<forall>x\<in>set new. method x = ''GET'' \<and>
       (\<exists>f\<in>set (files_under one_file_tree). path x = walked_route ''/assets'' (fst f) \<and>
          (\<exists>b. snd f = Some b \<and>
             (\<forall>req w. callback x req w =
                (if headersSent w
                 then (Inl ERR_HTTP_HEADERS_SENT, w\<lparr>console := console w @ mime_log (extension_of (last (fst f)))\<rparr>)
                 else (Inr (), w\<lparr>console := console w @ mime_log (extension_of (last (fst f))),
                         res := [WriteHead 200 [(''Content-Type'', Text (mime_of (extension_of (last (fst f)))))],
                                 End (decode_ascii b)]\<rparr>)))))"
    by (elim exE conjE)
  have eager: "res (snd (callback x ?req edited_world))
                 = [WriteHead 200 [(''Content-Type'', Text ''text/plain'')], End ''hi'']"
    if x: "x \<in> set new" for x
  proof -
    from bspec[OF new(2) x] obtain f b where f: "f \<in> set (files_under one_file_tree)" "snd f = Some b"
      "\<forall>req w. callback x req w =
            (if headersSent w
             then (Inl ERR_HTTP_HEADERS_SENT, w\<lparr>console := console w @ mime_log (extension_of (last (fst f)))\<rparr>)
             else (Inr (), w\<lparr>console := console w @ mime_log (extension_of (last (fst f))),
                     res := [WriteHead 200 [(''Content-Type'', Text (mime_of (extension_of (last (fst f)))))],
                             End (decode_ascii b)]\<rparr>))"
      by (elim bexE exE conjE)
    have "f = ([''a.txt''], Some [104, 105])" using f(1) by (simp add: files_under_one_file)
    then have "b = [104, 105]" "fst f = [''a.txt'']" using f(2) by simp_all
    then show ?thesis using f(3) fresh by (simp add: plain decode_ascii_eval)
  qed
  from inst[THEN conjunct2, THEN conjunct2]
  obtain new' where new':
    "snd (useDynamic decode_ascii one_file_tree ''/root'' ''/assets'' new_ServerShell)
       = new_ServerShell\<lparr>routes := routes new_ServerShell @ new'\<rparr>"
    "\<forall>x\<in>set new'. method x = ''GET'' \<and>
       (\<exists>f\<in>set (files_under one_file_tree). path x = walked_route ''/assets'' (fst f) \<and>
         (\<forall>req w. callback x req w =
            (case files w (foldl join ''/root'' (fst f)) of
               None \<Rightarrow> (Inl (FilesystemError (foldl join ''/root'' (fst f))), w)
             | Some b \<Rightarrow>
                 (if headersSent w
                  then (Inl ERR_HTTP_HEADERS_SENT, w\<lparr>console := console w @ mime_log (extension_of (last (fst f)))\<rparr>)
                  else (Inr (), w\<lparr>console := console w @ mime_log (extension_of (last (fst f))),
                          res := [WriteHead 200 [(''Content-Type'', Text (mime_of (extension_of (last (fst f))))),
                                          (''Content-Length'', Number (byteLength (decode_ascii b)))],
                                  End (decode_ascii b)]\<rparr>)))))"
    by (elim exE conjE)
  have lazy: "res (snd (callback x ?req edited_world))
                 = [WriteHead 200 [(''Content-Type'', Text ''text/plain''), (''Content-Length'', Number 2)],
                    End ''ho'']"
    if x: "x \<in> set new'" for x
  proof -
    from bspec[OF new'(2) x] obtain f where f: "f \<in> set (files_under one_file_tree)"
      "\<forall>req w. callback x req w =
            (case files w (foldl join ''/root'' (fst f)) of
               None \<Rightarrow> (Inl (FilesystemError (foldl join ''/root'' (fst f))), w)
             | Some b \<Rightarrow>
                 (if headersSent w
                  then (Inl ERR_HTTP_HEADERS_SENT, w\<lparr>console := console w @ mime_log (extension_of (last (fst f)))\<rparr>)
                  else (Inr (), w\<lparr>console := console w @ mime_log (extension_of (last (fst f))),
                          res := [WriteHead 200 [(''Content-Type'', Text (mime_of (extension_of (last (fst f))))),
                                          (''Content-Length'', Number (byteLength (decode_ascii b)))],
                                  End (decode_ascii b)]\<rparr>)))"
      by (elim bexE exE conjE)
    have "f = ([''a.txt''], Some [104, 105])" using f(1) by (simp add: files_under_one_file)
    then have "fst f = [''a.txt'']" by simp
    moreover have "files edited_world ''/root/a.txt'' = Some [104, 111]"
      by (simp add: edited_world_def)
    ultimately show ?thesis using f(2) fresh
      by (simp add: plain decode_ascii_eval join_eval2 byteLength_def)
  qed
  have r1: "routes (snd (useStatic decode_ascii one_file_tree ''/root'' ''/assets'' new_ServerShell)) = new"
    unfolding new(1) by (simp add: new_ServerShell_def)
  have r2: "routes (snd (useDynamic decode_ascii one_file_tree ''/root'' ''/assets'' new_ServerShell)) = new'"
    unfolding new'(1) by (simp add: new_ServerShell_def)
  show ?thesis
    using one_file_routes eager lazy unfolding r1 r2 by (simp add: list_all_iff)
qed

text \<open>
  Without the proviso on the head the statement fails. Both walks succeed on the directory
  holding \<open>a.txt\<close>; behind a middleware that has answered the request, the request for
  \<open>/assets/a.txt\<close> makes the listener throw, and the response holds what the middleware
  wrote and nothing of the file.
\<close>

theorem eager_and_lazy_counterexample:
  "fst (useStatic decode_ascii one_file_tree ''/root'' ''/assets'' new_ServerShell) = Inr () \<and>
   listen (use refuse (snd (useStatic decode_ascii one_file_tree ''/root'' ''/assets'' new_ServerShell)))
       \<lparr>url = ''/assets/a.txt'', req_method = ''GET''\<rparr> edited_world
     = (Inl ERR_HTTP_HEADERS_SENT, edited_world\<lparr>res := [WriteHead 401 [], End ''no'']\<rparr>) \<and>
   fst (useDynamic decode_ascii one_file_tree ''/root'' ''/assets'' new_ServerShell) = Inr () \<and>
   listen (use refuse (snd (useDynamic decode_ascii one_file_tree ''/root'' ''/assets'' new_ServerShell)))
       \<lparr>url = ''/assets/a.txt'', req_method = ''GET''\<rparr> edited_world
     = (Inl ERR_HTTP_HEADERS_SENT, edited_world\<lparr>res := [WriteHead 401 [], End ''no'']\<rparr>)"
  by (simp add: one_file_tree_def new_ServerShell_def join_eval join_eval2 get_eq conflicts_def
      replaceAll_backslash_def backslash_def Let_def use_def listen_def equals_def refuse_def
      bind_io_def writeHead_def res_end_def headersSent_def
      static_listener_run dynamic_listener_run mime_log_def mime_table_def edited_world_def)

text \<open>
  C10. For an entry without a dot, \<open>split\<close> gives the entry alone, so the extension is the
  entry and the name is empty: the iteration of \<open>useStatic\<close> and of \<open>useDynamic\<close> for such a
  file registers the route prefix joined with the entry, never one level up, and binds a
  listener that resolves the content type of the whole entry: the \<open>Content-Type\<close> it hands to
  \<open>writeHead\<close> is the type the table has for the entry, or \<open>text/plain\<close> after a logged line
  when the table does not have it. The response is that head and the content when the head
  has not been written; when it has, \<open>writeHead\<close> throws after the line was logged.
\<close>

theorem no_dot_entry:
  assumes "CHR ''.'' \<notin> set entry"
  shows "split CHR ''.'' entry = [entry] \<and> extension_of entry = entry \<and> name_of entry = [] \<and>
    useStatic decode (Directory (Some ((entry, File (Some b)) # rest))) directory route this =
      (case get (replaceAll_backslash (join route entry)) (static_listener entry (decode b)) this of
         (Inl e, this') \<Rightarrow> (Inl e, this')
       | (Inr u, this') \<Rightarrow> useStatic decode (Directory (Some rest)) directory route this') \<and>
    useDynamic decode (Directory (Some ((entry, File data) # rest))) directory route this =
      (case get (replaceAll_backslash (join route entry))
              (dynamic_listener decode (join directory entry) entry) this of
         (Inl e, this') \<Rightarrow> (Inl e, this')
       | (Inr u, this') \<Rightarrow> useDynamic decode (Directory (Some rest)) directory route this') \<and>
    static_listener entry contents req w =
      (case map_of mime_table entry of
         Some mime \<Rightarrow>
           if headersSent w then (Inl ERR_HTTP_HEADERS_SENT, w)
           else (Inr (), w\<lparr>res := [WriteHead 200 [(''Content-Type'', Text mime)],
                                End (contents)]\<rparr>)
       | None \<Rightarrow>
           if headersSent w then (Inl ERR_HTTP_HEADERS_SENT, w\<lparr>console := console w @ [unknown_extension_line entry]\<rparr>)
           else (Inr (), w\<lparr>console := console w @ [unknown_extension_line entry],
                     res := [WriteHead 200 [(''Content-Type'', Text ''text/plain'')],
                                End (contents)]\<rparr>)) \<and>
    dynamic_listener decode (join directory entry) entry req w =
      (case files w (join directory entry) of
         None \<Rightarrow> (Inl (FilesystemError (join directory entry)), w)
       | Some c \<Rightarrow>
           (case map_of mime_table entry of
              Some mime \<Rightarrow>
                if headersSent w then (Inl ERR_HTTP_HEADERS_SENT, w)
                else (Inr (), w\<lparr>res := [WriteHead 200 [(''Content-Type'', Text mime),
                                       (''Content-Length'', Number (byteLength (decode c)))],
                                     End (decode c)]\<rparr>)
            | None \<Rightarrow>
                if headersSent w then (Inl ERR_HTTP_HEADERS_SENT, w\<lparr>console := console w @ [unknown_extension_line entry]\<rparr>)
                else (Inr (), w\<lparr>console := console w @ [unknown_extension_line entry],
                          res := [WriteHead 200 [(''Content-Type'', Text ''text/plain''),
                                       (''Content-Length'', Number (byteLength (decode c)))],
                                     End (decode c)]\<rparr>)))"
proof -
  have sp: "split CHR ''.'' entry = [entry]" using assms by (rule split_notin)
  have st: "useStatic decode (Directory (Some ((entry, File (Some b)) # rest))) directory route this =
      (case get (replaceAll_backslash (join route entry)) (static_listener entry (decode b)) this of
         (Inl e, this') \<Rightarrow> (Inl e, this')
       | (Inr u, this') \<Rightarrow> useStatic decode (Directory (Some rest)) directory route this')"
    by (simp add: sp Let_def split: prod.splits sum.splits)
  have dy: "useDynamic decode (Directory (Some ((entry, File data) # rest))) directory route this =
      (case get (replaceAll_backslash (join route entry))
              (dynamic_listener decode (join directory entry) entry) this of
         (Inl e, this') \<Rightarrow> (Inl e, this')
       | (Inr u, this') \<Rightarrow> useDynamic decode (Directory (Some rest)) directory route this')"
    by (simp add: sp Let_def split: prod.splits sum.splits)
  have sl: "static_listener entry contents req w =
      (case map_of mime_table entry of
         Some mime \<Rightarrow>
           if headersSent w then (Inl ERR_HTTP_HEADERS_SENT, w)
           else (Inr (), w\<lparr>res := [WriteHead 200 [(''Content-Type'', Text mime)],
                                End (contents)]\<rparr>)
       | None \<Rightarrow>
           if headersSent w then (Inl ERR_HTTP_HEADERS_SENT, w\<lparr>console := console w @ [unknown_extension_line entry]\<rparr>)
           else (Inr (), w\<lparr>console := console w @ [unknown_extension_line entry],
                     res := [WriteHead 200 [(''Content-Type'', Text ''text/plain'')],
                                End (contents)]\<rparr>))"
    by (simp add: static_listener_run mime_of_def mime_log_def split: option.splits)
  have dl: "dynamic_listener decode (join directory entry) entry req w =
      (case files w (join directory entry) of
         None \<Rightarrow> (Inl (FilesystemError (join directory entry)), w)
       | Some c \<Rightarrow>
           (case map_of mime_table entry of
              Some mime \<Rightarrow>
                if headersSent w then (Inl ERR_HTTP_HEADERS_SENT, w)
                else (Inr (), w\<lparr>res := [WriteHead 200 [(''Content-Type'', Text mime),
                                       (''Content-Length'', Number (byteLength (decode c)))],
                                     End (decode c)]\<rparr>)
            | None \<Rightarrow>
                if headersSent w then (Inl ERR_HTTP_HEADERS_SENT, w\<lparr>console := console w @ [unknown_extension_line entry]\<rparr>)
                else (Inr (), w\<lparr>console := console w @ [unknown_extension_line entry],
                          res := [WriteHead 200 [(''Content-Type'', Text ''text/plain''),
                                       (''Content-Length'', Number (byteLength (decode c)))],
                                     End (decode c)]\<rparr>)))"
    by (simp add: dynamic_listener_run mime_of_def mime_log_def split: option.splits)
  show ?thesis
    using sp split_no_dot[OF assms] st dy sl dl by (intro conjI) simp_all
qed

theorem no_dot_entry_witness:
  "CHR ''.'' \<notin> set ''Makefile'' \<and>
   map path (routes (snd (useStatic decode_ascii makefile_tree ''/root'' ''/assets'' new_ServerShell)))
     = [''/assets/Makefile''] \<and>
   map (\<lambda>x. snd (callback x \<lparr>url = ''/assets/Makefile'', req_method = ''GET''\<rparr> example_world))
       (routes (snd (useStatic decode_ascii makefile_tree ''/root'' ''/assets'' new_ServerShell)))
     = [\<lparr>files = (\<lambda>p. None), console = [unknown_extension_line ''Makefile''],
         res = [WriteHead 200 [(''Content-Type'', Text ''text/plain'')], End ''hi'']\<rparr>]"
proof -
  have nd: "CHR ''.'' \<notin> set ''Makefile''" by simp
  note inst = no_dot_entry[OF nd, of decode_ascii "[104, 105]" "[]" "''/root''" "''/assets''"
                new_ServerShell]
  have run: "useStatic decode_ascii makefile_tree ''/root'' ''/assets'' new_ServerShell
      = (Inr (), new_ServerShell\<lparr>routes :=
           [\<lparr>path = ''/assets/Makefile'', method = ''GET'',
             callback = static_listener ''Makefile'' ''hi''\<rparr>]\<rparr>)"
    unfolding makefile_tree_def
    by (subst inst[THEN conjunct2, THEN conjunct2, THEN conjunct2, THEN conjunct1])
       (simp add: get_eq new_ServerShell_def join_eval2 replaceAll_backslash_def backslash_def
          decode_ascii_eval)
  have resp: "static_listener ''Makefile'' ''hi'' req example_world
      = (Inr (), \<lparr>files = (\<lambda>p. None), console = [unknown_extension_line ''Makefile''],
         res = [WriteHead 200 [(''Content-Type'', Text ''text/plain'')], End ''hi'']\<rparr>)" for req
    by (subst inst[THEN conjunct2, THEN conjunct2, THEN conjunct2, THEN conjunct2, THEN conjunct2, THEN conjunct1])
       (simp add: mime_table_def example_world_def headersSent_def)
  show ?thesis using nd by (simp add: run resp)
qed

section \<open>The routes of a served directory\<close>

lemma walked_route_Cons:
  "segs \<noteq> [] \<Longrightarrow> walked_route route (entry # segs) = walked_route (join route entry) segs"
  by (simp add: walked_route_def)

lemma static_step_Cons:
  "fst f \<noteq> [] \<Longrightarrow>
     static_step decode route (case f of (segs, data) \<Rightarrow> (entry # segs, data))
       = static_step decode (join route entry) f"
  by (cases f) (simp add: static_step_def walked_route_Cons)

lemma well_formed_readable:
  "well_formed node \<Longrightarrow> readable node"
  "well_formed_entries entries \<Longrightarrow> readable_entries entries"
  by (induction node and entries rule: readable_readable_entries.induct) auto

lemma plan_readable:
  "readable node \<Longrightarrow> (\<exists>l. node = Directory l) \<Longrightarrow>
     plan (static_bind decode) node directory route = map (static_step decode route) (files_under node)"
  "readable_entries entries \<Longrightarrow>
     plan_entries (static_bind decode) entries directory route
       = map (static_step decode route) (files_in entries)"
proof (induction "static_bind decode" node directory route and "static_bind decode" entries directory route
       rule: plan_plan_entries.induct)
  case (6 entry listing rest directory route)
  have sub: "plan (static_bind decode) (Directory listing) (join directory entry) (join route entry)
               = map (static_step decode (join route entry)) (files_under (Directory listing))"
    using 6 by simp
  have "map (static_step decode route)
          (map (\<lambda>(segs, data). (entry # segs, data)) (files_under (Directory listing)))
        = map (static_step decode (join route entry)) (files_under (Directory listing))"
    unfolding map_map comp_def
    by (rule map_cong[OF refl]) (use files_nonempty(1) static_step_Cons in blast)
  then show ?case using 6 sub by simp
next
  case (7 entry data rest directory route)
  then obtain b where b: "data = Some b" by auto
  show ?case using 7 b
    by (simp add: Let_def static_bind_simps static_step_def walked_route_def extension_of_def name_of_def)
qed simp_all

lemma run_plan_ok:
  "\<forall>e. Fail e \<notin> set steps \<Longrightarrow> distinct (map path (bound steps)) \<Longrightarrow>
   (\<forall>r\<in>set (routes this). \<forall>x\<in>set (bound steps). \<not> conflicts r (path x) ''GET'') \<Longrightarrow>
     run_plan steps this = (Inr (), this\<lparr>routes := routes this @ bound steps\<rparr>)"
proof (induction steps arbitrary: this)
  case Nil
  show ?case by simp
next
  case (Cons s steps)
  show ?case
  proof (cases s)
    case (Fail e)
    then show ?thesis using Cons.prems(1) by auto
  next
    case (Bind p l)
    let ?r = "\<lparr>path = p, method = ''GET'', callback = l\<rparr>"
    let ?s1 = "this\<lparr>routes := routes this @ [?r]\<rparr>"
    have free: "\<not> (\<exists>r\<in>set (routes this). conflicts r p ''GET'')"
      using Cons.prems(3) Bind by auto
    have g: "get p l this = (Inr (), ?s1)" using free by (simp add: get_eq)
    have nf: "\<forall>e. Fail e \<notin> set steps" using Cons.prems(1) by auto
    have d: "distinct (map path (bound steps))" using Cons.prems(2) Bind by simp
    have pn: "p \<notin> path ` set (bound steps)" using Cons.prems(2) Bind by simp
    have c: "\<forall>r\<in>set (routes ?s1). \<forall>x\<in>set (bound steps). \<not> conflicts r (path x) ''GET''"
      using Cons.prems(3) Bind pn by (auto simp: conflicts_def)
    have "run_plan steps ?s1 = (Inr (), ?s1\<lparr>routes := routes ?s1 @ bound steps\<rparr>)"
      using Cons.IH[OF nf d c] .
    then show ?thesis using Bind g by simp
  qed
qed

lemma run_plan_taken:
  assumes nf: "\<forall>e. Fail e \<notin> set xs" and d: "distinct (map path (bound xs))"
    and free: "\<forall>r\<in>set (routes this). \<forall>x\<in>set (bound xs). \<not> conflicts r (path x) ''GET''"
    and taken: "(\<exists>r\<in>set (routes this). conflicts r p ''GET'') \<or> p \<in> path ` set (bound xs)"
  shows "run_plan (xs @ Bind p l # ys) this
           = (Inl (RouteAlreadyBoundError p), this\<lparr>routes := routes this @ bound xs\<rparr>)"
proof -
  let ?s1 = "this\<lparr>routes := routes this @ bound xs\<rparr>"
  have r1: "run_plan xs this = (Inr (), ?s1)" using run_plan_ok[OF nf d free] .
  have "\<exists>r\<in>set (routes ?s1). conflicts r p ''GET''"
  proof (cases "\<exists>r\<in>set (routes this). conflicts r p ''GET''")
    case True
    then show ?thesis by auto
  next
    case False
    then obtain x where x: "x \<in> set (bound xs)" "path x = p" using taken by auto
    then have "method x = ''GET''" using bound_set by blast
    then have "conflicts x p ''GET''" using x(2) by (simp add: conflicts_def)
    then show ?thesis using x(1) by auto
  qed
  then have "get p l ?s1 = (Inl (RouteAlreadyBoundError p), ?s1)" by (simp add: get_eq)
  then show ?thesis by (simp add: run_plan_append r1)
qed

lemma replaceAll_backslash_id: "backslash \<notin> set s \<Longrightarrow> replaceAll_backslash s = s"
  by (induction s) (auto simp: replaceAll_backslash_def)

lemma array_join_set:
  "set (array_join sep ss) \<subseteq> set sep \<union> \<Union> (set ` set ss)"
  by (induction sep ss rule: array_join.induct) auto

lemma abs_path_inj:
  assumes "\<forall>s\<in>set a. valid_name s" "\<forall>s\<in>set b. valid_name s" "abs_path a = abs_path b"
  shows "a = b"
proof -
  have eq: "array_join ''/'' a = array_join ''/'' b" using assms(3) by (simp add: abs_path_def)
  have ne: "\<forall>s\<in>set a. s \<noteq> []" "\<forall>s\<in>set b. s \<noteq> []" using assms(1,2) by (auto simp: valid_name_def)
  have nil: "a = [] \<longleftrightarrow> b = []"
    using array_join_Nil_iff[OF ne(1), of "''/''"] array_join_Nil_iff[OF ne(2), of "''/''"]
    unfolding eq by blast
  show ?thesis
  proof (cases "a = []")
    case True
    then show ?thesis using nil by simp
  next
    case False
    then have bne: "b \<noteq> []" using nil by simp
    have sa: "split CHR ''/'' (array_join ''/'' a) = a"
      using False assms(1) by (intro split_array_join) (auto simp: valid_name_def)
    have sb: "split CHR ''/'' (array_join ''/'' b) = b"
      using bne assms(2) by (intro split_array_join) (auto simp: valid_name_def)
    show ?thesis using sa sb unfolding eq by (rule trans[OF sym])
  qed
qed

lemma files_in_hd:
  "f \<in> set (files_in entries) \<Longrightarrow> fst f \<noteq> [] \<and> hd (fst f) \<in> fst ` set entries"
proof (induction entries)
  case Nil
  then show ?case by simp
next
  case (Cons e entries)
  obtain n node where e: "e = (n, node)" by (cases e)
  show ?case
  proof (cases node)
    case (File d)
    then show ?thesis using Cons e by auto
  next
    case (Directory l)
    then show ?thesis using Cons e by auto
  next
    case Special
    then show ?thesis using Cons e by auto
  qed
qed

lemma files_plain:
  "well_formed node \<Longrightarrow> \<forall>f\<in>set (files_under node). \<forall>s\<in>set (fst f). plain_name s"
  "well_formed_entries entries \<Longrightarrow> \<forall>f\<in>set (files_in entries). \<forall>s\<in>set (fst f). plain_name s"
  by (induction node and entries rule: files_under_files_in.induct) auto

lemma prefix_free_Nil: "prefix_free []"
  by (simp add: prefix_free_def)

lemma prefix_free_Cons_map:
  assumes "prefix_free ps"
  shows "prefix_free (map ((#) n) ps)"
  using assms by (auto simp: prefix_free_def distinct_map)

lemma prefix_free_append:
  assumes "prefix_free ps" "prefix_free qs"
    and "\<forall>a\<in>set ps. a \<noteq> [] \<and> hd a \<in> A" "\<forall>b\<in>set qs. b \<noteq> [] \<and> hd b \<in> B" "A \<inter> B = {}"
  shows "prefix_free (ps @ qs)"
proof -
  have cross: "\<not> (\<exists>t. b = a @ t)" "\<not> (\<exists>t. a = b @ t)" "a \<noteq> b"
    if "a \<in> set ps" "b \<in> set qs" for a b
  proof -
    have ha: "a \<noteq> []" "hd a \<in> A" and hb: "b \<noteq> []" "hd b \<in> B" using that assms(3,4) by auto
    then have ne: "hd a \<noteq> hd b" using assms(5) by auto
    show "\<not> (\<exists>t. b = a @ t)" using ha(1) ne by auto
    show "\<not> (\<exists>t. a = b @ t)" using hb(1) ne by auto
    show "a \<noteq> b" using ne by auto
  qed
  have d: "distinct (ps @ qs)" using assms(1,2) cross(3) by (auto simp: prefix_free_def)
  have "\<forall>a\<in>set (ps @ qs). \<forall>b\<in>set (ps @ qs). (\<exists>t. b = a @ t) \<longrightarrow> a = b"
  proof (intro ballI impI)
    fix a b assume a: "a \<in> set (ps @ qs)" and b: "b \<in> set (ps @ qs)" and t: "\<exists>t. b = a @ t"
    consider "a \<in> set ps" "b \<in> set ps" | "a \<in> set qs" "b \<in> set qs"
      | "a \<in> set ps" "b \<in> set qs" | "a \<in> set qs" "b \<in> set ps"
      using a b by auto
    then show "a = b"
    proof cases
      case 1
      then show ?thesis using assms(1) t unfolding prefix_free_def by blast
    next
      case 2
      then show ?thesis using assms(2) t unfolding prefix_free_def by blast
    next
      case 3
      then show ?thesis using cross(1) t by blast
    next
      case 4
      then show ?thesis using cross(2) t by blast
    qed
  qed
  then show ?thesis using d by (simp add: prefix_free_def)
qed

lemma files_prefix_free:
  "well_formed node \<Longrightarrow> prefix_free (map fst (files_under node))"
  "well_formed_entries entries \<Longrightarrow> prefix_free (map fst (files_in entries))"
proof (induction node and entries rule: files_under_files_in.induct)
  case (6 entry listing rest)
  have sub: "prefix_free (map fst (files_under (Directory listing)))" using 6 by simp
  have rest: "prefix_free (map fst (files_in rest))" using 6 by simp
  have m: "map fst (map (\<lambda>(segs, data). (entry # segs, data)) (files_under (Directory listing)))
             = map ((#) entry) (map fst (files_under (Directory listing)))"
    by (simp add: case_prod_beta comp_def)
  have "prefix_free (map ((#) entry) (map fst (files_under (Directory listing))) @ map fst (files_in rest))"
  proof (rule prefix_free_append[where A = "{entry}" and B = "fst ` set rest"])
    show "prefix_free (map ((#) entry) (map fst (files_under (Directory listing))))"
      using sub by (rule prefix_free_Cons_map)
    show "prefix_free (map fst (files_in rest))" by (rule rest)
    show "\<forall>a\<in>set (map ((#) entry) (map fst (files_under (Directory listing)))). a \<noteq> [] \<and> hd a \<in> {entry}"
      by auto
    show "\<forall>b\<in>set (map fst (files_in rest)). b \<noteq> [] \<and> hd b \<in> fst ` set rest"
      using files_in_hd by auto
    show "{entry} \<inter> fst ` set rest = {}" using 6(3) by auto
  qed
  then have "prefix_free (map fst (map (\<lambda>(segs, data). (entry # segs, data))
                 (files_under (Directory listing))) @ map fst (files_in rest))"
    unfolding m .
  then show ?case by (simp del: map_map)
next
  case (7 entry data rest)
  have rest: "prefix_free (map fst (files_in rest))" using 7 by simp
  have "prefix_free ([[entry]] @ map fst (files_in rest))"
  proof (rule prefix_free_append[where A = "{entry}" and B = "fst ` set rest"])
    show "prefix_free [[entry]]" by (simp add: prefix_free_def)
    show "prefix_free (map fst (files_in rest))" by (rule rest)
    show "\<forall>a\<in>set [[entry]]. a \<noteq> [] \<and> hd a \<in> {entry}" by simp
    show "\<forall>b\<in>set (map fst (files_in rest)). b \<noteq> [] \<and> hd b \<in> fst ` set rest"
      using files_in_hd by auto
    show "{entry} \<inter> fst ` set rest = {}" using 7(2) by auto
  qed
  then show ?case by simp
qed (simp_all add: prefix_free_Nil)

lemma strip_index_inj:
  assumes pf: "prefix_free ps" and a: "a \<in> set ps" and b: "b \<in> set ps"
    and ne: "a \<noteq> []" "b \<noteq> []" and eq: "strip_index a = strip_index b"
  shows "a = b"
proof -
  have step: "x = y" if x: "x \<in> set ps" and y: "y \<in> set ps" and "x \<noteq> []"
      and "last x = ''index.html''" and "butlast x = y" for x y
  proof -
    have "x = y @ [''index.html'']" using that(3,4,5) append_butlast_last_id by metis
    then show ?thesis using pf x y unfolding prefix_free_def by blast
  qed
  show ?thesis
  proof (cases "last a = ''index.html''")
    case True
    show ?thesis
    proof (cases "last b = ''index.html''")
      case True
      have "butlast a = butlast b" using eq True \<open>last a = ''index.html''\<close> by (simp add: strip_index_def)
      then show ?thesis using ne True \<open>last a = ''index.html''\<close> append_butlast_last_id by metis
    next
      case False
      then have "butlast a = b" using eq True by (simp add: strip_index_def)
      then show ?thesis using step[OF a b ne(1) True] by simp
    qed
  next
    case False
    show ?thesis
    proof (cases "last b = ''index.html''")
      case True
      then have "butlast b = a" using eq False by (simp add: strip_index_def)
      then show ?thesis using step[OF b a ne(2) True] by simp
    next
      case False
      then show ?thesis using eq \<open>last a \<noteq> ''index.html''\<close> by (simp add: strip_index_def)
    qed
  qed
qed

lemma abs_path_no_backslash:
  assumes "\<forall>s\<in>set segs. plain_name s"
  shows "backslash \<notin> set (abs_path segs)"
proof -
  have "set (array_join ''/'' segs) \<subseteq> set ''/'' \<union> \<Union> (set ` set segs)" by (rule array_join_set)
  moreover have "backslash \<notin> \<Union> (set ` set segs)" using assms by (auto simp: plain_name_def)
  moreover have "backslash \<noteq> CHR ''/''" by (simp add: backslash_def)
  ultimately show ?thesis by (auto simp: abs_path_def)
qed

lemma spec_route_plain:
  assumes "\<forall>s\<in>set prefix. plain_name s" "\<forall>s\<in>set segs. plain_name s"
  shows "spec_route prefix segs = abs_path (prefix @ strip_index segs)"
proof -
  have "\<forall>s\<in>set (strip_index segs). plain_name s"
    using assms(2) by (auto simp: strip_index_def dest: in_set_butlastD)
  then have "\<forall>s\<in>set (prefix @ strip_index segs). plain_name s" using assms(1) by auto
  then have "backslash \<notin> set (abs_path (prefix @ strip_index segs))" by (rule abs_path_no_backslash)
  then show ?thesis by (simp add: spec_route_def strip_index_def replaceAll_backslash_id)
qed

lemma spec_route_distinct:
  assumes wf: "well_formed_entries contents" and pre: "\<forall>s\<in>set prefix. plain_name s"
  shows "distinct (map (\<lambda>f. spec_route prefix (fst f)) (files_in contents))"
proof -
  let ?ps = "map fst (files_in contents)"
  have pf: "prefix_free ?ps" using wf by (rule files_prefix_free(2))
  have plain: "\<forall>a\<in>set ?ps. \<forall>s\<in>set a. plain_name s" using files_plain(2)[OF wf] by auto
  have ne: "\<forall>a\<in>set ?ps. a \<noteq> []" using files_nonempty(2) by auto
  have inj: "inj_on (spec_route prefix) (set ?ps)"
  proof (rule inj_onI)
    fix a b assume a: "a \<in> set ?ps" and b: "b \<in> set ?ps" and eq: "spec_route prefix a = spec_route prefix b"
    have pa: "\<forall>s\<in>set a. plain_name s" and pb: "\<forall>s\<in>set b. plain_name s" using plain a b by blast+
    have e: "abs_path (prefix @ strip_index a) = abs_path (prefix @ strip_index b)"
      using eq spec_route_plain[OF pre pa] spec_route_plain[OF pre pb] by simp
    have va: "\<forall>s\<in>set (prefix @ strip_index a). valid_name s"
      using pre pa by (auto simp: strip_index_def plain_name_def dest: in_set_butlastD)
    have vb: "\<forall>s\<in>set (prefix @ strip_index b). valid_name s"
      using pre pb by (auto simp: strip_index_def plain_name_def dest: in_set_butlastD)
    have "prefix @ strip_index a = prefix @ strip_index b" using abs_path_inj[OF va vb e] .
    then have "strip_index a = strip_index b" by simp
    then show "a = b" using strip_index_inj[OF pf a b] ne a b by blast
  qed
  have "distinct ?ps" using pf by (simp add: prefix_free_def)
  then have "distinct (map (spec_route prefix) ?ps)"
    using inj by (subst distinct_map) (rule conjI)
  then show ?thesis by (simp add: comp_def)
qed

lemma bound_static_steps:
  "bound (map (static_step decode route) fs)
     = map (\<lambda>f. \<lparr>path = walked_route route (fst f), method = ''GET'',
                  callback = static_listener (extension_of (last (fst f))) (decode (the (snd f)))\<rparr>) fs"
  by (induction fs) (simp_all add: static_step_def)

lemma static_steps_no_Fail: "Fail e \<notin> set (map (static_step decode route) fs)"
  by (auto simp: static_step_def)

lemma split_set: "\<forall>x\<in>set (split c s). set x \<subseteq> set s"
proof (induction s)
  case Nil
  show ?case by simp
next
  case (Cons a s)
  obtain y ys where sp: "split c s = y # ys" using split_not_Nil by (cases "split c s") auto
  have y: "set y \<subseteq> set s" and ys: "\<forall>x\<in>set ys. set x \<subseteq> set s" using Cons sp by simp_all
  show ?case
  proof (cases "a = c")
    case True
    then show ?thesis using y ys sp by auto
  next
    case False
    then show ?thesis using y ys sp by auto
  qed
qed

lemma normalize_segment_subset:
  "set (normalize_segment allow st seg) \<subseteq> insert seg (insert ''..'' (set st))"
  by (cases st) (auto simp: normalize_segment_def)

lemma normalize_segment_set:
  assumes "\<forall>x\<in>set st. set x \<subseteq> A" "set seg \<subseteq> A" "CHR ''.'' \<in> A"
  shows "\<forall>x\<in>set (normalize_segment allow st seg). set x \<subseteq> A"
proof
  fix x assume "x \<in> set (normalize_segment allow st seg)"
  then have "x \<in> insert seg (insert ''..'' (set st))"
    using normalize_segment_subset by blast
  then consider "x = seg" | "x = ''..''" | "x \<in> set st" by blast
  then show "set x \<subseteq> A"
  proof cases
    case 1
    then show ?thesis using assms(2) by simp
  next
    case 2
    then show ?thesis using assms(3) by simp
  next
    case 3
    then show ?thesis using assms(1) by blast
  qed
qed

lemma foldl_normalize_segment_set:
  "\<forall>x\<in>set st. set x \<subseteq> A \<Longrightarrow> \<forall>seg\<in>set segs. set seg \<subseteq> A \<Longrightarrow> CHR ''.'' \<in> A \<Longrightarrow>
     \<forall>x\<in>set (foldl (normalize_segment allow) st segs). set x \<subseteq> A"
proof (induction segs arbitrary: st)
  case Nil
  then show ?case by simp
next
  case (Cons seg segs)
  have seg: "set seg \<subseteq> A" and rest: "\<forall>s\<in>set segs. set s \<subseteq> A"
    using Cons.prems(2) by simp_all
  have "\<forall>x\<in>set (normalize_segment allow st seg). set x \<subseteq> A"
    by (rule normalize_segment_set[OF Cons.prems(1) seg Cons.prems(3)])
  from Cons.IH[OF this rest Cons.prems(3)] show ?case by simp
qed

lemma normalizeString_set:
  "set (normalizeString p allow) \<subseteq> set p \<union> {CHR ''/'', CHR ''.''}"
proof -
  let ?A = "set p \<union> {CHR ''/'', CHR ''.''}"
  let ?st = "foldl (normalize_segment allow) [] (split CHR ''/'' p)"
  have segs: "\<forall>seg\<in>set (split CHR ''/'' p). set seg \<subseteq> ?A"
  proof
    fix seg assume "seg \<in> set (split CHR ''/'' p)"
    then have "set seg \<subseteq> set p" using split_set by blast
    then show "set seg \<subseteq> ?A" by blast
  qed
  have "\<forall>x\<in>set ?st. set x \<subseteq> ?A"
    by (rule foldl_normalize_segment_set[OF _ segs]) simp_all
  then have u: "\<Union> (set ` set (rev ?st)) \<subseteq> ?A" by auto
  have sep: "set ''/'' \<subseteq> ?A" by simp
  have "set (array_join ''/'' (rev ?st)) \<subseteq> set ''/'' \<union> \<Union> (set ` set (rev ?st))"
    by (rule array_join_set)
  also have "\<dots> \<subseteq> ?A" by (rule Un_least[OF sep u])
  finally show ?thesis unfolding normalizeString_def .
qed

lemma normalize_set: "set (normalize p) \<subseteq> set p \<union> {CHR ''/'', CHR ''.''}"
proof -
  have q: "set (normalizeString p allow) \<subseteq> insert CHR ''/'' (insert CHR ''.'' (set p))" for allow
    using normalizeString_set[of p allow] by simp
  show ?thesis by (simp add: normalize_def Let_def q)
qed

lemma join_set: "set (join a b) \<subseteq> set a \<union> set b \<union> {CHR ''/'', CHR ''.''}"
proof -
  have n: "set (normalize x) \<subseteq> set x \<union> {CHR ''/'', CHR ''.''}" for x by (rule normalize_set)
  consider "a = []" "b = []" | "a = []" "b \<noteq> []" | "a \<noteq> []" "b = []" | "a \<noteq> []" "b \<noteq> []"
    by blast
  then show ?thesis
  proof cases
    case 1
    then show ?thesis by (simp add: join_def)
  next
    case 2
    then show ?thesis using n[of b] by (auto simp: join_def)
  next
    case 3
    then show ?thesis using n[of a] by (auto simp: join_def)
  next
    case 4
    then show ?thesis using n[of "a @ ''/'' @ b"] by (auto simp: join_def)
  qed
qed

lemma foldl_join_set:
  "set (foldl join route segs) \<subseteq> set route \<union> \<Union> (set ` set segs) \<union> {CHR ''/'', CHR ''.''}"
proof (induction segs arbitrary: route)
  case Nil
  show ?case by auto
next
  case (Cons s segs)
  have a: "set (foldl join (join route s) segs)
             \<subseteq> set (join route s) \<union> \<Union> (set ` set segs) \<union> {CHR ''/'', CHR ''.''}"
    by (rule Cons)
  have b: "set (join route s) \<subseteq> set route \<union> set s \<union> {CHR ''/'', CHR ''.''}"
    by (rule join_set)
  show ?case using a b by auto
qed

lemma walked_route_plain:
  assumes "backslash \<notin> set route" "\<forall>s\<in>set segs. backslash \<notin> set s"
  shows "walked_route route segs =
           (if last segs = ''index.html'' then join (foldl join route segs) ''..''
            else foldl join route segs)"
proof -
  have b: "backslash \<noteq> CHR ''/''" "backslash \<noteq> CHR ''.''" by (simp_all add: backslash_def)
  have f: "backslash \<notin> set (foldl join route segs)"
    using foldl_join_set[of route segs] assms b by auto
  have "backslash \<notin> set (join (foldl join route segs) ''..'')"
    using join_set[of "foldl join route segs" "''..''"] f b by auto
  then show ?thesis using f by (simp add: walked_route_def index_html_iff replaceAll_backslash_id)
qed

lemma walked_route_prefix:
  assumes "\<forall>s\<in>set prefix. plain_name s" "\<forall>s\<in>set segs. plain_name s" "segs \<noteq> []"
  shows "walked_route (abs_path prefix) segs = abs_path (prefix @ strip_index segs)"
proof -
  have "walked_route (abs_path prefix) segs = spec_route prefix segs"
    using assms by (intro walked_route_spec) (auto simp: plain_name_def)
  then show ?thesis using spec_route_plain[OF assms(1,2)] by simp
qed

lemma walked_route_distinct:
  assumes wf: "well_formed_entries contents" and pre: "\<forall>s\<in>set prefix. plain_name s"
  shows "distinct (map (\<lambda>f. walked_route (abs_path prefix) (fst f)) (files_in contents))"
proof -
  have "map (\<lambda>f. walked_route (abs_path prefix) (fst f)) (files_in contents)
          = map (\<lambda>f. spec_route prefix (fst f)) (files_in contents)"
  proof (rule map_cong[OF refl])
    fix f assume f: "f \<in> set (files_in contents)"
    have "\<forall>s\<in>set (fst f). valid_name s" using files_plain(2)[OF wf] f by (auto simp: plain_name_def)
    moreover have "fst f \<noteq> []" using files_nonempty(2) f by blast
    moreover have "\<forall>s\<in>set prefix. valid_name s" using pre by (simp add: plain_name_def)
    ultimately show "walked_route (abs_path prefix) (fst f) = spec_route prefix (fst f)"
      using walked_route_spec by blast
  qed
  then show ?thesis using spec_route_distinct[OF wf pre] by (simp only:)
qed

lemma useStatic_served:
  assumes rd: "readable_entries contents"
    and d: "distinct (map (\<lambda>f. walked_route route (fst f)) (files_in contents))"
    and free: "\<forall>r\<in>set (routes this). \<forall>f\<in>set (files_in contents).
                 \<not> conflicts r (walked_route route (fst f)) ''GET''"
  shows "useStatic decode (Directory (Some contents)) directory route this
           = (Inr (), this\<lparr>routes := routes this @
                map (\<lambda>f. \<lparr>path = walked_route route (fst f), method = ''GET'',
                             callback = static_listener (extension_of (last (fst f)))
                                          (decode (the (snd f)))\<rparr>)
                    (files_in contents)\<rparr>)"
proof -
  let ?steps = "map (static_step decode route) (files_in contents)"
  have pl: "plan (static_bind decode) (Directory (Some contents)) directory route = ?steps"
    using plan_readable(2)[OF rd] by simp
  have nf: "\<forall>e. Fail e \<notin> set ?steps" using static_steps_no_Fail by blast
  have d': "distinct (map path (bound ?steps))"
    unfolding bound_static_steps using d by (simp add: comp_def)
  have c: "\<forall>r\<in>set (routes this). \<forall>x\<in>set (bound ?steps). \<not> conflicts r (path x) ''GET''"
    unfolding bound_static_steps using free by auto
  have "run_plan ?steps this = (Inr (), this\<lparr>routes := routes this @ bound ?steps\<rparr>)"
    using run_plan_ok[OF nf d' c] .
  then show ?thesis unfolding bound_static_steps useStatic_walk walk_run_plan pl .
qed

lemma useStatic_taken:
  assumes rd: "readable_entries contents" and k: "k < length (files_in contents)"
    and d: "distinct (map (\<lambda>f. walked_route route (fst f)) (take k (files_in contents)))"
    and free: "\<forall>r\<in>set (routes this). \<forall>f\<in>set (take k (files_in contents)).
                 \<not> conflicts r (walked_route route (fst f)) ''GET''"
    and taken: "(\<exists>r\<in>set (routes this).
                    conflicts r (walked_route route (fst (files_in contents ! k))) ''GET'') \<or>
                (\<exists>f\<in>set (take k (files_in contents)).
                    walked_route route (fst f) = walked_route route (fst (files_in contents ! k)))"
  shows "useStatic decode (Directory (Some contents)) directory route this
           = (Inl (RouteAlreadyBoundError (walked_route route (fst (files_in contents ! k)))),
              this\<lparr>routes := routes this @
                map (\<lambda>f. \<lparr>path = walked_route route (fst f), method = ''GET'',
                             callback = static_listener (extension_of (last (fst f)))
                                          (decode (the (snd f)))\<rparr>)
                    (take k (files_in contents))\<rparr>)"
proof -
  let ?fs = "files_in contents"
  let ?xs = "map (static_step decode route) (take k ?fs)"
  let ?p = "walked_route route (fst (?fs ! k))"
  let ?l = "static_listener (extension_of (last (fst (?fs ! k)))) (decode (the (snd (?fs ! k))))"
  let ?ys = "map (static_step decode route) (drop (Suc k) ?fs)"
  have fs: "?fs = take k ?fs @ (?fs ! k) # drop (Suc k) ?fs" using k by (rule id_take_nth_drop)
  have "map (static_step decode route) ?fs
          = map (static_step decode route) (take k ?fs @ (?fs ! k) # drop (Suc k) ?fs)"
    using fs by simp
  then have steps: "map (static_step decode route) ?fs = ?xs @ Bind ?p ?l # ?ys"
    by (simp add: static_step_def)
  have pl: "plan (static_bind decode) (Directory (Some contents)) directory route
              = ?xs @ Bind ?p ?l # ?ys"
    using plan_readable(2)[OF rd] steps by simp
  have nf: "\<forall>e. Fail e \<notin> set ?xs" using static_steps_no_Fail by blast
  have d': "distinct (map path (bound ?xs))"
    unfolding bound_static_steps using d by (simp add: comp_def)
  have c: "\<forall>r\<in>set (routes this). \<forall>x\<in>set (bound ?xs). \<not> conflicts r (path x) ''GET''"
    unfolding bound_static_steps using free by auto
  have mp: "map path (bound ?xs) = map (\<lambda>f. walked_route route (fst f)) (take k ?fs)"
    unfolding bound_static_steps by (simp add: comp_def)
  have "set (map path (bound ?xs)) = set (map (\<lambda>f. walked_route route (fst f)) (take k ?fs))"
    by (simp only: mp)
  then have img: "path ` set (bound ?xs) = (\<lambda>f. walked_route route (fst f)) ` set (take k ?fs)"
    by (simp only: set_map)
  have t0: "(\<exists>r\<in>set (routes this). conflicts r ?p ''GET'') \<or>
            ?p \<in> (\<lambda>f. walked_route route (fst f)) ` set (take k ?fs)"
  proof (rule disjE[OF taken])
    assume "\<exists>r\<in>set (routes this). conflicts r ?p ''GET''"
    then show ?thesis by (rule disjI1)
  next
    assume "\<exists>f\<in>set (take k ?fs). walked_route route (fst f) = ?p"
    then obtain f where f: "f \<in> set (take k ?fs)" "walked_route route (fst f) = ?p"
      by (elim bexE)
    have "?p \<in> (\<lambda>f. walked_route route (fst f)) ` set (take k ?fs)"
      by (rule image_eqI[where f = "\<lambda>f. walked_route route (fst f)", OF f(2)[symmetric] f(1)])
    then show ?thesis by (rule disjI2)
  qed
  have t: "(\<exists>r\<in>set (routes this). conflicts r ?p ''GET'') \<or> ?p \<in> path ` set (bound ?xs)"
    unfolding img by (rule t0)
  have "run_plan (?xs @ Bind ?p ?l # ?ys) this
          = (Inl (RouteAlreadyBoundError ?p), this\<lparr>routes := routes this @ bound ?xs\<rparr>)"
    using run_plan_taken[OF nf d' c t] .
  then show ?thesis unfolding bound_static_steps useStatic_walk walk_run_plan pl .
qed

lemma example_walked:
  "map (\<lambda>f. walked_route ''/assets'' (fst f)) (files_in
       [(''a.txt'', File (Some [104, 105])),
        (''sub'', Directory (Some
           [(''b.png'', File (Some [137, 80, 78, 71])),
            (''index.html'', File (Some [60, 112, 62]))]))])
     = [''/assets/a.txt'', ''/assets/sub/b.png'', ''/assets/sub'']"
  by (simp add: walked_route_def extension_of_def name_of_def join_eval replaceAll_backslash_def
      backslash_def)

text \<open>
  C6 (amended). Over a tree in which every directory can be listed and every file read, and
  for every route prefix: when the routes the walk computes for the regular files are
  pairwise different and no route of the shell conflicts with one of them, \<open>useStatic\<close>
  returns having appended exactly one \<open>GET\<close> route per regular file, in the order of the
  walk, each bound to the listener of that file, and changed nothing else. When the route
  of a file is taken, by a route of the shell or by an earlier file, and the files before
  it have free and different routes, it throws \<open>RouteAlreadyBoundError\<close> at that file and
  keeps the routes of the files before it. When neither the prefix nor a name holds a
  backslash, the route of a file is the prefix joined with the names of its relative path
  one after the other, and joined with \<open>..\<close> after that for \<open>index.html\<close>; for a prefix
  \<open>/p1/.../pk\<close> this is the prefix followed by the relative path, respectively by the
  relative path of the directory of an \<open>index.html\<close>, and the files of a tree with different
  names in each directory then have different routes. The route the walk computes for a
  name that holds a backslash is not described further. The tree with \<open>a.txt\<close>,
  \<open>sub/b.png\<close> and \<open>sub/index.html\<close> under the prefix \<open>/assets\<close> gives \<open>/assets/a.txt\<close>,
  \<open>/assets/sub/b.png\<close> and \<open>/assets/sub\<close>.
\<close>

theorem useStatic_routes:
  "(readable_entries contents \<and>
    distinct (map (\<lambda>f. walked_route route (fst f)) (files_in contents)) \<and>
    (\<forall>r\<in>set (routes this). \<forall>f\<in>set (files_in contents).
        \<not> conflicts r (walked_route route (fst f)) ''GET'') \<longrightarrow>
      useStatic decode (Directory (Some contents)) directory route this
        = (Inr (), this\<lparr>routes := routes this @
             map (\<lambda>f. \<lparr>path = walked_route route (fst f), method = ''GET'',
                          callback = static_listener (extension_of (last (fst f)))
                                       (decode (the (snd f)))\<rparr>)
                 (files_in contents)\<rparr>)) \<and>
   (readable_entries contents \<and> k < length (files_in contents) \<and>
    distinct (map (\<lambda>f. walked_route route (fst f)) (take k (files_in contents))) \<and>
    (\<forall>r\<in>set (routes this). \<forall>f\<in>set (take k (files_in contents)).
        \<not> conflicts r (walked_route route (fst f)) ''GET'') \<and>
    ((\<exists>r\<in>set (routes this).
         conflicts r (walked_route route (fst (files_in contents ! k))) ''GET'') \<or>
     (\<exists>f\<in>set (take k (files_in contents)).
         walked_route route (fst f) = walked_route route (fst (files_in contents ! k)))) \<longrightarrow>
      useStatic decode (Directory (Some contents)) directory route this
        = (Inl (RouteAlreadyBoundError (walked_route route (fst (files_in contents ! k)))),
           this\<lparr>routes := routes this @
             map (\<lambda>f. \<lparr>path = walked_route route (fst f), method = ''GET'',
                          callback = static_listener (extension_of (last (fst f)))
                                       (decode (the (snd f)))\<rparr>)
                 (take k (files_in contents))\<rparr>)) \<and>
   (backslash \<notin> set route \<and> (\<forall>s\<in>set segs. backslash \<notin> set s) \<longrightarrow>
      walked_route route segs =
        (if last segs = ''index.html'' then join (foldl join route segs) ''..''
         else foldl join route segs)) \<and>
   ((\<forall>s\<in>set prefix. plain_name s) \<and> (\<forall>s\<in>set segs. plain_name s) \<and> segs \<noteq> [] \<longrightarrow>
      walked_route (abs_path prefix) segs = abs_path (prefix @ strip_index segs)) \<and>
   (well_formed_entries contents \<and> (\<forall>s\<in>set prefix. plain_name s) \<longrightarrow>
      distinct (map (\<lambda>f. walked_route (abs_path prefix) (fst f)) (files_in contents))) \<and>
   fst (useStatic decode example_tree ''/root'' ''/assets'' new_ServerShell) = Inr () \<and>
   map (\<lambda>x. (path x, method x))
       (routes (snd (useStatic decode example_tree ''/root'' ''/assets'' new_ServerShell)))
     = [(''/assets/a.txt'', ''GET''), (''/assets/sub/b.png'', ''GET''), (''/assets/sub'', ''GET'')]"
proof (intro conjI impI)
  assume "readable_entries contents \<and>
    distinct (map (\<lambda>f. walked_route route (fst f)) (files_in contents)) \<and>
    (\<forall>r\<in>set (routes this). \<forall>f\<in>set (files_in contents).
        \<not> conflicts r (walked_route route (fst f)) ''GET'')"
  then show "useStatic decode (Directory (Some contents)) directory route this
        = (Inr (), this\<lparr>routes := routes this @
             map (\<lambda>f. \<lparr>path = walked_route route (fst f), method = ''GET'',
                          callback = static_listener (extension_of (last (fst f)))
                                       (decode (the (snd f)))\<rparr>)
                 (files_in contents)\<rparr>)"
    by (elim conjE) (rule useStatic_served, assumption+)
next
  assume "readable_entries contents \<and> k < length (files_in contents) \<and>
    distinct (map (\<lambda>f. walked_route route (fst f)) (take k (files_in contents))) \<and>
    (\<forall>r\<in>set (routes this). \<forall>f\<in>set (take k (files_in contents)).
        \<not> conflicts r (walked_route route (fst f)) ''GET'') \<and>
    ((\<exists>r\<in>set (routes this).
         conflicts r (walked_route route (fst (files_in contents ! k))) ''GET'') \<or>
     (\<exists>f\<in>set (take k (files_in contents)).
         walked_route route (fst f) = walked_route route (fst (files_in contents ! k))))"
  then show "useStatic decode (Directory (Some contents)) directory route this
        = (Inl (RouteAlreadyBoundError (walked_route route (fst (files_in contents ! k)))),
           this\<lparr>routes := routes this @
             map (\<lambda>f. \<lparr>path = walked_route route (fst f), method = ''GET'',
                          callback = static_listener (extension_of (last (fst f)))
                                       (decode (the (snd f)))\<rparr>)
                 (take k (files_in contents))\<rparr>)"
    by (elim conjE) (rule useStatic_taken, assumption+)
next
  assume "backslash \<notin> set route \<and> (\<forall>s\<in>set segs. backslash \<notin> set s)"
  then show "walked_route route segs =
        (if last segs = ''index.html'' then join (foldl join route segs) ''..''
         else foldl join route segs)"
    by (elim conjE) (rule walked_route_plain, assumption+)
next
  assume "(\<forall>s\<in>set prefix. plain_name s) \<and> (\<forall>s\<in>set segs. plain_name s) \<and> segs \<noteq> []"
  then show "walked_route (abs_path prefix) segs = abs_path (prefix @ strip_index segs)"
    by (elim conjE) (rule walked_route_prefix, assumption+)
next
  assume "well_formed_entries contents \<and> (\<forall>s\<in>set prefix. plain_name s)"
  then show "distinct (map (\<lambda>f. walked_route (abs_path prefix) (fst f)) (files_in contents))"
    by (elim conjE) (rule walked_route_distinct, assumption+)
qed (simp_all add: example_routes)

theorem useStatic_routes_witness:
  "readable example_tree \<and>
   fst (useStatic decode_ascii example_tree ''/root'' ''/assets'' new_ServerShell) = Inr () \<and>
   map (\<lambda>x. (path x, method x))
       (routes (snd (useStatic decode_ascii example_tree ''/root'' ''/assets'' new_ServerShell)))
     = [(''/assets/a.txt'', ''GET''), (''/assets/sub/b.png'', ''GET''), (''/assets/sub'', ''GET'')] \<and>
   fst (useStatic decode_ascii example_tree ''/root'' ''/assets'' claimed_shell)
     = Inl (RouteAlreadyBoundError ''/assets/sub/b.png'') \<and>
   map (\<lambda>x. (path x, method x))
       (routes (snd (useStatic decode_ascii example_tree ''/root'' ''/assets'' claimed_shell)))
     = [(''/assets/sub/b.png'', ''ANY''), (''/assets/a.txt'', ''GET'')] \<and>
   walked_route ''assets/'' [''index.html''] = ''assets'' \<and>
   walked_route ''/assets'' [''sub'', ''index.html''] = ''/assets/sub'' \<and>
   well_formed example_tree \<and>
   distinct (map (\<lambda>f. walked_route ''/assets'' (fst f)) (files_under example_tree))"
proof -
  let ?contents = "[(''a.txt'', File (Some [104, 105])),
        (''sub'', Directory (Some
           [(''b.png'', File (Some [137, 80, 78, 71])),
            (''index.html'', File (Some [60, 112, 62]))]))]"
  note inst = useStatic_routes[where decode = decode_ascii and contents = ?contents
        and directory = "''/root''" and route = "''/assets''"]
  have rd: "readable_entries ?contents" by simp
  have d: "distinct (map (\<lambda>f. walked_route ''/assets'' (fst f)) (files_in ?contents))"
    unfolding example_walked by simp
  have free: "\<forall>r\<in>set (routes new_ServerShell). \<forall>f\<in>set (files_in ?contents).
                \<not> conflicts r (walked_route ''/assets'' (fst f)) ''GET''"
    by (simp add: new_ServerShell_def)
  have run: "useStatic decode_ascii (Directory (Some ?contents)) ''/root'' ''/assets'' new_ServerShell
             = (Inr (), new_ServerShell\<lparr>routes := routes new_ServerShell @
                  map (\<lambda>f. \<lparr>path = walked_route ''/assets'' (fst f), method = ''GET'',
                               callback = static_listener (extension_of (last (fst f)))
                                            (decode_ascii (the (snd f)))\<rparr>)
                      (files_in ?contents)\<rparr>)"
    using inst[where this = new_ServerShell, THEN conjunct1] rd d free
    by (elim impE) (intro conjI, assumption+)
  have paths: "map (\<lambda>x. (path x, method x))
       (map (\<lambda>f. \<lparr>path = walked_route ''/assets'' (fst f), method = ''GET'',
                               callback = static_listener (extension_of (last (fst f)))
                                            (decode_ascii (the (snd f)))\<rparr>) fs)
     = map (\<lambda>p. (p, ''GET'')) (map (\<lambda>f. walked_route ''/assets'' (fst f)) fs)" for fs
    by (simp add: comp_def)
  have cs: "routes claimed_shell
              = [\<lparr>path = ''/assets/sub/b.png'', method = ''ANY'', callback = say ''x''\<rparr>]"
    by (simp add: claimed_shell_def any_def new_ServerShell_def push_def)
  have w1: "walked_route ''/assets'' [''a.txt''] = ''/assets/a.txt''"
    and w2: "walked_route ''/assets'' [''sub'', ''b.png''] = ''/assets/sub/b.png''"
    using example_walked by simp_all
  have k: "(1::nat) < length (files_in ?contents)" by simp
  have d1: "distinct (map (\<lambda>f. walked_route ''/assets'' (fst f)) (take 1 (files_in ?contents)))"
    by simp
  have free1: "\<forall>r\<in>set (routes claimed_shell). \<forall>f\<in>set (take 1 (files_in ?contents)).
                \<not> conflicts r (walked_route ''/assets'' (fst f)) ''GET''"
    by (simp add: cs w1 conflicts_def)
  have taken: "(\<exists>r\<in>set (routes claimed_shell).
         conflicts r (walked_route ''/assets'' (fst (files_in ?contents ! 1))) ''GET'') \<or>
     (\<exists>f\<in>set (take 1 (files_in ?contents)).
         walked_route ''/assets'' (fst f) = walked_route ''/assets'' (fst (files_in ?contents ! 1)))"
    by (simp add: cs w2 conflicts_def)
  have stop: "useStatic decode_ascii (Directory (Some ?contents)) ''/root'' ''/assets'' claimed_shell
        = (Inl (RouteAlreadyBoundError (walked_route ''/assets'' (fst (files_in ?contents ! 1)))),
           claimed_shell\<lparr>routes := routes claimed_shell @
             map (\<lambda>f. \<lparr>path = walked_route ''/assets'' (fst f), method = ''GET'',
                          callback = static_listener (extension_of (last (fst f)))
                                       (decode_ascii (the (snd f)))\<rparr>)
                 (take 1 (files_in ?contents))\<rparr>)"
    using inst[where this = claimed_shell and k = 1, THEN conjunct2, THEN conjunct1]
      rd k d1 free1 taken
    by (elim impE) (intro conjI, assumption+)
  have r1: "map (\<lambda>x. (path x, method x))
       (routes (snd (useStatic decode_ascii (Directory (Some ?contents)) ''/root'' ''/assets''
                       new_ServerShell)))
     = [(''/assets/a.txt'', ''GET''), (''/assets/sub/b.png'', ''GET''), (''/assets/sub'', ''GET'')]"
  proof -
    have "routes (snd (useStatic decode_ascii (Directory (Some ?contents)) ''/root'' ''/assets''
                         new_ServerShell))
            = map (\<lambda>f. \<lparr>path = walked_route ''/assets'' (fst f), method = ''GET'',
                               callback = static_listener (extension_of (last (fst f)))
                                            (decode_ascii (the (snd f)))\<rparr>)
                  (files_in ?contents)"
      unfolding run by (simp add: new_ServerShell_def del: files_under.simps files_in.simps)
    then show ?thesis unfolding paths example_walked by (simp only: paths example_walked list.map)
  qed
  have r2: "fst (useStatic decode_ascii (Directory (Some ?contents)) ''/root'' ''/assets'' claimed_shell)
     = Inl (RouteAlreadyBoundError ''/assets/sub/b.png'')"
    unfolding stop by (simp add: w2)
  have r3: "map (\<lambda>x. (path x, method x))
       (routes (snd (useStatic decode_ascii (Directory (Some ?contents)) ''/root'' ''/assets''
                       claimed_shell)))
     = [(''/assets/sub/b.png'', ''ANY''), (''/assets/a.txt'', ''GET'')]"
    unfolding stop by (simp add: cs w1)
  have nb: "backslash \<notin> set ''assets/'' \<and> (\<forall>s\<in>set [''index.html'']. backslash \<notin> set s)"
    by (simp add: backslash_def)
  have r4: "walked_route ''assets/'' [''index.html''] = ''assets''"
    using useStatic_routes[where route = "''assets/''" and segs = "[''index.html'']",
        THEN conjunct2, THEN conjunct2, THEN conjunct1] nb
    by (simp add: join_def normalize_def normalizeString_def normalize_segment_def)
  have pl: "(\<forall>s\<in>set [''assets'']. plain_name s) \<and>
            (\<forall>s\<in>set [''sub'', ''index.html'']. plain_name s) \<and> [''sub'', ''index.html''] \<noteq> []"
    by (simp add: plain_name_def valid_name_def backslash_def)
  have ap: "abs_path [''assets''] = ''/assets''" by (simp add: abs_path_def)
  have r5: "walked_route ''/assets'' [''sub'', ''index.html''] = ''/assets/sub''"
    using useStatic_routes[where prefix = "[''assets'']" and segs = "[''sub'', ''index.html'']",
        THEN conjunct2, THEN conjunct2, THEN conjunct2, THEN conjunct1] pl
    unfolding ap by (simp add: abs_path_def strip_index_def)
  have wf: "well_formed_entries ?contents \<and> (\<forall>s\<in>set [''assets'']. plain_name s)"
    by (simp add: plain_name_def valid_name_def backslash_def)
  have r6: "distinct (map (\<lambda>f. walked_route ''/assets'' (fst f)) (files_in ?contents))"
    using useStatic_routes[where contents = ?contents and prefix = "[''assets'']",
        THEN conjunct2, THEN conjunct2, THEN conjunct2, THEN conjunct2, THEN conjunct1] wf
    unfolding ap by (elim impE) assumption+
  have wft: "well_formed example_tree" using wf unfolding example_tree_def by simp
  have fu: "files_under example_tree = files_in ?contents" unfolding example_tree_def by simp
  show ?thesis
    using rd run r1 r2 r3 r4 r5 wft r6 unfolding fu unfolding example_tree_def by simp
qed

text \<open>
  The claim as stated, for every tree, fails. On the shell that has served a directory
  once, serving it again throws at the first file and binds nothing. And a directory \<open>a\<close>
  holding \<open>b.txt\<close> next to a file whose name is \<open>a\<close>, a backslash and \<open>b.txt\<close> has two
  regular files to which the walk gives the same route, so on a new shell the second
  registration throws and one route is bound for two files.
\<close>

theorem useStatic_clash_counterexample:
  "valid_tree clash_tree \<and>
   fst (useStatic decode_ascii clash_tree ''/root'' ''/assets'' new_ServerShell)
     = Inl (RouteAlreadyBoundError ''/assets/a/b.txt'') \<and>
   map path (routes (snd (useStatic decode_ascii clash_tree ''/root'' ''/assets'' new_ServerShell)))
     = [''/assets/a/b.txt''] \<and>
   length (files_under clash_tree) = 2 \<and>
   fst (useStatic decode_ascii one_file_tree ''/root'' ''/assets''
          (snd (useStatic decode_ascii one_file_tree ''/root'' ''/assets'' new_ServerShell)))
     = Inl (RouteAlreadyBoundError ''/assets/a.txt'') \<and>
   length (routes (snd (useStatic decode_ascii one_file_tree ''/root'' ''/assets''
          (snd (useStatic decode_ascii one_file_tree ''/root'' ''/assets'' new_ServerShell))))) = 1"
  by (simp add: clash_tree_def one_file_tree_def new_ServerShell_def join_eval join_eval2 get_eq
      conflicts_def replaceAll_backslash_def backslash_def Let_def valid_name_def extension_of_def
      name_of_def)

end
